theory Spec2Isabelle
  imports Complex_Main
begin

section \<open>Grey images and the image operations of the detection pipeline\<close>

text \<open>
  The monitor loop of \<^verbatim>\<open>security_monitor.py\<close> works on 8-bit single-channel images
  (the result of \<^verbatim>\<open>cv2.cvtColor\<close> and \<^verbatim>\<open>cv2.GaussianBlur\<close>). An image is the list of
  its rows, a pixel a natural number (0..255; none of the operations below leaves that
  range). The operations are those the loop calls, with the behaviour the OpenCV
  documentation gives them for the arguments the loop passes.
\<close>

type_synonym image = "nat list list"
type_synonym point = "int \<times> int"
type_synonym contour = "point list"
type_synonym rect = "int \<times> int \<times> int \<times> int"

definition shape :: "image \<Rightarrow> nat list" where
  "shape img = map length img"

text \<open>Pixel at column \<open>x\<close>, row \<open>y\<close>; 0 outside the image (the constant border).\<close>

definition px :: "image \<Rightarrow> int \<Rightarrow> int \<Rightarrow> nat" where
  "px img x y =
     (if 0 \<le> y \<and> y < int (length img) \<and> 0 \<le> x \<and> x < int (length (img ! nat y))
      then img ! nat y ! nat x else 0)"

text \<open>
  \<^verbatim>\<open>cv2.absdiff(a, b)\<close>: the per-pixel absolute difference; it raises \<^verbatim>\<open>cv2.error\<close>
  (here \<open>None\<close>) when the two arrays differ in size.
\<close>

definition absdiff :: "image \<Rightarrow> image \<Rightarrow> image option" where
  "absdiff a b =
     (if shape a = shape b
      then Some (map2 (map2 (\<lambda>p q. if q \<le> p then p - q else q - p)) a b)
      else None)"

text \<open>
  \<^verbatim>\<open>cv2.threshold(src, thresh, 255, cv2.THRESH_BINARY)[1]\<close> on an 8-bit image. OpenCV
  first takes the floor of \<open>thresh\<close> as a C \<^verbatim>\<open>int\<close> (\<^verbatim>\<open>cvFloor\<close>): for a value outside the
  range of a 32-bit integer the conversion yields the least integer, as the x86-64
  conversion instruction does. A negative integer threshold sets every pixel to 255, one
  of 255 or more sets every pixel to 0, and otherwise a pixel is 255 where it is greater
  than the integer threshold and 0 elsewhere.
\<close>

definition cvFloor :: "real \<Rightarrow> int" where
  "cvFloor v =
     (if - 2147483648 \<le> v \<and> v < 2147483648 then \<lfloor>v\<rfloor> else - 2147483648)"

definition threshold :: "image \<Rightarrow> real \<Rightarrow> image" where
  "threshold src thresh =
     map (map (\<lambda>p. if cvFloor thresh < 0 then 255
                     else if 255 \<le> cvFloor thresh then 0
                     else if cvFloor thresh < int p then 255 else 0)) src"

text \<open>
  One iteration of \<^verbatim>\<open>cv2.dilate(src, None)\<close>: the maximum over the 3 by 3 neighbourhood,
  pixels outside the image not taking part.
\<close>

definition neighbourhood :: "image \<Rightarrow> int \<Rightarrow> int \<Rightarrow> nat list" where
  "neighbourhood img x y =
     [px img (x - 1) (y - 1), px img x (y - 1), px img (x + 1) (y - 1),
      px img (x - 1) y, px img x y, px img (x + 1) y,
      px img (x - 1) (y + 1), px img x (y + 1), px img (x + 1) (y + 1)]"

primrec dilate_cols :: "image \<Rightarrow> int \<Rightarrow> int \<Rightarrow> nat list \<Rightarrow> nat list" where
  "dilate_cols img y x [] = []"
| "dilate_cols img y x (p # ps) =
     foldr max (neighbourhood img x y) 0 # dilate_cols img y (x + 1) ps"

primrec dilate_rows :: "image \<Rightarrow> int \<Rightarrow> image \<Rightarrow> image" where
  "dilate_rows img y [] = []"
| "dilate_rows img y (r # rs) = dilate_cols img y 0 r # dilate_rows img (y + 1) rs"

definition dilate1 :: "image \<Rightarrow> image" where
  "dilate1 img = dilate_rows img 0 img"

text \<open>\<^verbatim>\<open>cv2.dilate(thresh, None, iterations=2)\<close>.\<close>

definition dilate :: "image \<Rightarrow> image" where
  "dilate img = dilate1 (dilate1 img)"

subsection \<open>External contours\<close>

text \<open>
  \<^verbatim>\<open>cv2.findContours(mask, cv2.RETR_EXTERNAL, cv2.CHAIN_APPROX_SIMPLE)\<close> returns one
  contour for every 8-connected component of non-zero pixels that no other component
  encloses: the component's outer border, followed from its first pixel in scan order,
  with only the points kept at which the direction of the border changes. The contours
  come in the reverse of the order in which the scan finds them: the last found first.
\<close>

definition foreground :: "image \<Rightarrow> point list" where
  "foreground img =
     concat (map (\<lambda>y. map (\<lambda>x. (int x, int y))
                           (filter (\<lambda>x. img ! y ! x \<noteq> 0) [0 ..< length (img ! y)]))
                 [0 ..< length img])"

fun adj8 :: "point \<Rightarrow> point \<Rightarrow> bool" where
  "adj8 (x, y) (u, v) = (\<bar>x - u\<bar> \<le> 1 \<and> \<bar>y - v\<bar> \<le> 1)"

fun adj4 :: "point \<Rightarrow> point \<Rightarrow> bool" where
  "adj4 (x, y) (u, v) = (\<bar>x - u\<bar> + \<bar>y - v\<bar> \<le> 1)"

text \<open>
  Flood fill: \<open>frontier\<close> holds the points added last, \<open>reached\<close> the component so far,
  \<open>rest\<close> the points not reached yet. It returns the component and what is left.
\<close>

function flood ::
  "(point \<Rightarrow> point \<Rightarrow> bool) \<Rightarrow> point list \<Rightarrow> point list \<Rightarrow> point list
     \<Rightarrow> point list \<times> point list" where
  "flood adj frontier reached rest =
     (if filter (\<lambda>p. list_ex (adj p) frontier) rest = [] then (reached, rest)
      else flood adj (filter (\<lambda>p. list_ex (adj p) frontier) rest)
             (reached @ filter (\<lambda>p. list_ex (adj p) frontier) rest)
             (filter (\<lambda>p. \<not> list_ex (adj p) frontier) rest))"
  by pat_completeness auto
termination
proof (relation "measure (\<lambda>(adj, frontier, reached, rest). length rest)")
  show "wf (measure (\<lambda>(adj, frontier, reached, rest). length rest))"
    by simp
next
  fix adj :: "point \<Rightarrow> point \<Rightarrow> bool" and frontier reached rest :: "point list"
  assume ne: "filter (\<lambda>p. list_ex (adj p) frontier) rest \<noteq> []"
  have "length (filter (\<lambda>p. list_ex (adj p) frontier) rest)
          + length (filter (\<lambda>p. \<not> list_ex (adj p) frontier) rest) = length rest"
    by (rule sum_length_filter_compl)
  moreover have "0 < length (filter (\<lambda>p. list_ex (adj p) frontier) rest)"
    using ne by simp
  ultimately have "length (filter (\<lambda>p. \<not> list_ex (adj p) frontier) rest) < length rest"
    by linarith
  then show "((adj, filter (\<lambda>p. list_ex (adj p) frontier) rest,
               reached @ filter (\<lambda>p. list_ex (adj p) frontier) rest,
               filter (\<lambda>p. \<not> list_ex (adj p) frontier) rest),
              (adj, frontier, reached, rest))
             \<in> measure (\<lambda>(adj, frontier, reached, rest). length rest)"
    by simp
qed

text \<open>The 8-connected components of a list of points, each with its first point.\<close>

function components :: "point list \<Rightarrow> (point \<times> point list) list" where
  "components [] = []"
| "components (p # ps) =
     (p, fst (flood adj8 [p] [p] ps)) # components (snd (flood adj8 [p] [p] ps))"
  by pat_completeness auto
termination
proof (relation "measure length")
  show "wf (measure (length :: point list \<Rightarrow> nat))"
    by simp
next
  fix p :: point and ps :: "point list"
  have le: "length (snd (flood adj frontier reached rest)) \<le> length rest"
    for adj frontier reached rest
  proof (induction adj frontier reached rest rule: flood.induct)
    case (1 adj frontier reached rest)
    show ?case
    proof (cases "filter (\<lambda>p. list_ex (adj p) frontier) rest = []")
      case True
      then show ?thesis by (simp add: flood.simps [of adj frontier reached rest])
    next
      case False
      have "length (snd (flood adj frontier reached rest))
              \<le> length (filter (\<lambda>p. \<not> list_ex (adj p) frontier) rest)"
        using False "1.IH" by (simp add: flood.simps [of adj frontier reached rest])
      also have "\<dots> \<le> length rest" by (rule length_filter_le)
      finally show ?thesis .
    qed
  qed
  show "(snd (flood adj8 [p] [p] ps), p # ps) \<in> measure length"
    using le [of adj8 "[p]" "[p]" ps] by simp
qed

text \<open>
  The background region that reaches the frame of the image: the zero pixels, those of a
  one-pixel margin around the image included, that are 4-connected to the corner of the
  margin. A component is external when the pixel to the left of its first pixel lies in
  that region.
\<close>

definition width :: "image \<Rightarrow> nat" where
  "width img = foldr max (map length img) 0"

definition background :: "image \<Rightarrow> point list" where
  "background img =
     filter (\<lambda>(x, y). px img x y = 0)
       (concat (map (\<lambda>j. map (\<lambda>i. (int i - 1, int j - 1)) [0 ..< width img + 2])
                    [0 ..< length img + 2]))"

definition outside :: "image \<Rightarrow> point list" where
  "outside img = fst (flood adj4 [(- 1, - 1)] [(- 1, - 1)] (removeAll (- 1, - 1) (background img)))"

text \<open>
  Border following. The eight directions are numbered counter-clockwise from east, rows
  growing downwards. From the first pixel \<open>i0\<close> the neighbours are searched clockwise,
  starting after west, for the second border pixel \<open>i1\<close>; then, at every border pixel
  \<open>i3\<close> reached in direction \<open>s\<close>, the neighbours are searched counter-clockwise,
  starting after the pixel the walk came from. A point is recorded where the direction
  changes. The walk ends when it steps back onto \<open>i0\<close> from \<open>i1\<close>.
  \<open>fuel\<close> bounds the number of steps by the number of pairs of a pixel and a direction.
\<close>

definition code_deltas :: "point list" where
  "code_deltas = [(1, 0), (1, - 1), (0, - 1), (- 1, - 1), (- 1, 0), (- 1, 1), (0, 1), (1, 1)]"

definition step_to :: "point \<Rightarrow> nat \<Rightarrow> point" where
  "step_to p s =
     (fst p + fst (code_deltas ! (s mod 8)), snd p + snd (code_deltas ! (s mod 8)))"

definition is_set :: "image \<Rightarrow> point \<Rightarrow> bool" where
  "is_set img p = (px img (fst p) (snd p) \<noteq> 0)"

fun follow ::
  "image \<Rightarrow> point \<Rightarrow> point \<Rightarrow> nat \<Rightarrow> point \<Rightarrow> nat \<Rightarrow> nat \<Rightarrow> contour \<Rightarrow> contour" where
  "follow img i0 i1 0 i3 s prev_s acc = acc"
| "follow img i0 i1 (Suc fuel) i3 s prev_s acc =
     (case find (\<lambda>k. is_set img (step_to i3 k)) [s + 1 ..< 16] of
        None \<Rightarrow> acc
      | Some k \<Rightarrow>
          (if step_to i3 k = i0 \<and> i3 = i1
           then (if k mod 8 \<noteq> prev_s then acc @ [i3] else acc)
           else follow img i0 i1 fuel (step_to i3 k) ((k mod 8 + 4) mod 8) (k mod 8)
                  (if k mod 8 \<noteq> prev_s then acc @ [i3] else acc)))"

definition outer_border :: "image \<Rightarrow> point \<Rightarrow> contour" where
  "outer_border img i0 =
     (case find (\<lambda>s. is_set img (step_to i0 s)) [3, 2, 1, 0, 7, 6, 5] of
        None \<Rightarrow> [i0]
      | Some s \<Rightarrow>
          follow img i0 (step_to i0 s) (8 * length (foreground img)) i0 s ((s + 4) mod 8) [])"

definition findContours :: "image \<Rightarrow> contour list" where
  "findContours img =
     rev (map (\<lambda>c. outer_border img (fst c))
            (filter (\<lambda>c. (fst (fst c) - 1, snd (fst c)) \<in> set (outside img))
               (components (foreground img))))"

text \<open>
  \<^verbatim>\<open>cv2.contourArea(contour)\<close>: half the absolute value of the sum of the cross products
  of consecutive points, the last point joined to the first (Green's formula).
\<close>

fun cross_sum :: "contour \<Rightarrow> int" where
  "cross_sum ((x1, y1) # (x2, y2) # ps) = (x1 * y2 - x2 * y1) + cross_sum ((x2, y2) # ps)"
| "cross_sum ps = 0"

definition contourArea :: "contour \<Rightarrow> real" where
  "contourArea c =
     (case c of [] \<Rightarrow> 0 | p # ps \<Rightarrow> \<bar>real_of_int (cross_sum (last c # c))\<bar> / 2)"

text \<open>
  \<^verbatim>\<open>cv2.boundingRect(contour)\<close>: the upright rectangle \<open>(x, y, w, h)\<close> of the pixels of
  the contour, so that a single point has width and height 1.
\<close>

definition boundingRect :: "contour \<Rightarrow> rect" where
  "boundingRect c =
     (case c of
        [] \<Rightarrow> (0, 0, 0, 0)
      | p # ps \<Rightarrow>
          (foldr min (map fst ps) (fst p), foldr min (map snd ps) (snd p),
           foldr max (map fst ps) (fst p) - foldr min (map fst ps) (fst p) + 1,
           foldr max (map snd ps) (snd p) - foldr min (map snd ps) (snd p) + 1))"

section \<open>The SecurityMonitor object\<close>

text \<open>
  The strings that \<^verbatim>\<open>start\<close>, \<^verbatim>\<open>stop\<close> and \<^verbatim>\<open>stop_security_monitoring\<close> return are
  Russian sentences; each is one constructor here:
  \<^item> \<open>Msg_already_running\<close>: "security monitoring is already running" (line 69);
  \<^item> \<open>Msg_started\<close>: "security monitoring is started" (line 77);
  \<^item> \<open>Msg_not_running\<close>: "security monitoring is not running" (line 83);
  \<^item> \<open>Msg_stopped\<close>: "security monitoring is stopped" (line 91);
  \<^item> \<open>Msg_was_not_started\<close>: "security monitoring was not started" (line 313).
  The source has no other result string.
\<close>

datatype message =
    Msg_already_running
  | Msg_started
  | Msg_not_running
  | Msg_stopped
  | Msg_was_not_started

text \<open>The \<^verbatim>\<open>cv2.VideoCapture\<close> object held in \<^verbatim>\<open>self.camera\<close>.\<close>

datatype capture = Cap_unopened | Cap_open | Cap_released

text \<open>
  The attributes of a \<^verbatim>\<open>SecurityMonitor\<close>. Numbers are Python numbers (the defaults are
  integers); \<open>monitor_thread\<close> tells whether a thread object is stored. The credentials
  read from the environment serve the notification transports only and are left out.
\<close>

record monitor =
  camera_id :: int
  sensitivity :: real
  min_area :: real
  record_seconds :: real
  notify_method :: string
  save_dir :: string
  is_running :: bool
  camera :: "capture option"
  monitor_thread :: bool

definition new_monitor :: "int \<Rightarrow> real \<Rightarrow> real \<Rightarrow> real \<Rightarrow> string \<Rightarrow> string \<Rightarrow> monitor" where
  "new_monitor cid sens area secs method dir =
     \<lparr>camera_id = cid, sensitivity = sens, min_area = area, record_seconds = secs,
      notify_method = method, save_dir = dir,
      is_running = False, camera = None, monitor_thread = False\<rparr>"

text \<open>
  \<^verbatim>\<open>start\<close> returns its message, the object as it leaves it, and whether it has started
  a thread that runs \<^verbatim>\<open>_monitor_loop\<close>.
\<close>

definition start :: "monitor \<Rightarrow> message \<times> monitor \<times> bool" where
  "start m =
     (if is_running m then (Msg_already_running, m, False)
      else (Msg_started, m\<lparr>is_running := True, monitor_thread := True\<rparr>, True))"

definition stop :: "monitor \<Rightarrow> message \<times> monitor" where
  "stop m =
     (if \<not> is_running m then (Msg_not_running, m)
      else (Msg_stopped, m\<lparr>is_running := False, camera := None\<rparr>))"

section \<open>One cycle of the monitor loop\<close>

text \<open>
  A colour frame as the camera delivers it is of a type \<open>'p\<close> the model leaves open;
  \<^verbatim>\<open>cv2.cvtColor\<close> followed by \<^verbatim>\<open>cv2.GaussianBlur\<close> is a function \<open>smooth\<close> from it to a
  grey image, a parameter of the loop. What \<^verbatim>\<open>cv2.rectangle\<close> and \<^verbatim>\<open>cv2.putText\<close> draw
  on a frame is kept as the list of the drawings, in the order they were made;
  \<open>PutText\<close> carries the clock reading that its text renders.
\<close>

datatype draw = Rectangle int int int int | PutText real

record 'p frame =
  pixels :: 'p
  drawn :: "draw list"

definition rectangle :: "'p frame \<Rightarrow> rect \<Rightarrow> 'p frame" where
  "rectangle fr r =
     (case r of (x, y, w, h) \<Rightarrow> fr\<lparr>drawn := drawn fr @ [Rectangle x y (x + w) (y + h)]\<rparr>)"

definition putText :: "'p frame \<Rightarrow> real \<Rightarrow> 'p frame" where
  "putText fr t = fr\<lparr>drawn := drawn fr @ [PutText t]\<rparr>"

text \<open>
  The files of a session: \<^verbatim>\<open>motion_<timestamp>.avi\<close> and \<^verbatim>\<open>motion_<timestamp>.jpg\<close> in
  \<^verbatim>\<open>save_dir\<close>. The timestamp is printed to the second, so it is the whole second of the
  clock reading.
\<close>

datatype path = Video string int | Screenshot string int

definition stamp :: "real \<Rightarrow> int" where
  "stamp t = \<lfloor>t\<rfloor>"

text \<open>What a cycle does to the world outside the loop, in the order it does it.\<close>

datatype 'p event =
    VideoWriter_open path
  | Imwrite path "'p frame"
  | Send_notification path
  | Writer_write path "'p frame"
  | Writer_release path

text \<open>The local variables of \<^verbatim>\<open>_monitor_loop\<close> that live across cycles.\<close>

record 'p loop_state =
  gray_first_frame :: image
  is_recording :: bool
  video_writer :: "path option"
  record_start_time :: "real option"
  frame :: "'p frame option"

text \<open>
  What a cycle reads from outside: the flag \<^verbatim>\<open>self.is_running\<close> at the loop test (another
  thread may clear it), the result of \<^verbatim>\<open>camera.read()\<close> (\<open>None\<close> when \<^verbatim>\<open>ret\<close> is false) and
  the clock, once for every call in the body: \<^verbatim>\<open>datetime.now()\<close> at line 150,
  \<^verbatim>\<open>time.time()\<close> at lines 154, 170 and 177, \<^verbatim>\<open>datetime.now()\<close> at line 181. Clock
  readings are real numbers of seconds.
\<close>

record 'p cycle_in =
  running :: bool
  read :: "'p option"
  now_stamp :: real
  time_start :: real
  time_check :: real
  time_refresh :: real
  now_overlay :: real

datatype error = Cv2_error | Attribute_error | Type_error

text \<open>
  Lines 130 to 135: from the reference and the current grey frame to the dilated mask
  (the variable \<^verbatim>\<open>thresh\<close>) and its contours.
\<close>

definition motion_mask :: "real \<Rightarrow> image \<Rightarrow> image \<Rightarrow> image option" where
  "motion_mask sens gray_first gray =
     (case absdiff gray_first gray of
        None \<Rightarrow> None
      | Some frame_delta \<Rightarrow> Some (dilate (threshold frame_delta sens)))"

definition detect_contours :: "real \<Rightarrow> image \<Rightarrow> image \<Rightarrow> contour list option" where
  "detect_contours sens gray_first gray =
     (case motion_mask sens gray_first gray of
        None \<Rightarrow> None
      | Some thresh \<Rightarrow> Some (findContours thresh))"

text \<open>Lines 137 to 146: the loop over the contours, from \<open>(motion_detected, frame)\<close>.\<close>

fun scan_contours :: "real \<Rightarrow> contour list \<Rightarrow> bool \<times> 'p frame \<Rightarrow> bool \<times> 'p frame" where
  "scan_contours area [] (motion_detected, fr) = (motion_detected, fr)"
| "scan_contours area (c # cs) (motion_detected, fr) =
     (if contourArea c < area then scan_contours area cs (motion_detected, fr)
      else scan_contours area cs (True, rectangle fr (boundingRect c)))"

definition detect ::
  "real \<Rightarrow> real \<Rightarrow> image \<Rightarrow> image \<Rightarrow> 'p frame \<Rightarrow> (bool \<times> 'p frame) option" where
  "detect sens area gray_first gray fr =
     (case detect_contours sens gray_first gray of
        None \<Rightarrow> None
      | Some contours \<Rightarrow> Some (scan_contours area contours (False, fr)))"

text \<open>Lines 126 to 146 on the frame \<open>raw\<close> just read, in the state \<open>st\<close>.\<close>

definition detect_motion ::
  "('p \<Rightarrow> image) \<Rightarrow> monitor \<Rightarrow> 'p loop_state \<Rightarrow> 'p \<Rightarrow> (bool \<times> 'p frame) option" where
  "detect_motion smooth m st raw =
     detect (sensitivity m) (min_area m) (gray_first_frame st) (smooth raw)
       \<lparr>pixels = raw, drawn = []\<rparr>"

text \<open>Lines 150 to 163: a session starts.\<close>

definition start_recording ::
  "monitor \<Rightarrow> 'p cycle_in \<Rightarrow> 'p frame \<Rightarrow> 'p loop_state \<Rightarrow> 'p loop_state \<times> 'p event list" where
  "start_recording m inp fr st =
     (st\<lparr>video_writer := Some (Video (save_dir m) (stamp (now_stamp inp))),
         is_recording := True,
         record_start_time := Some (time_start inp)\<rparr>,
      [VideoWriter_open (Video (save_dir m) (stamp (now_stamp inp))),
       Imwrite (Screenshot (save_dir m) (stamp (now_stamp inp))) fr,
       Send_notification (Screenshot (save_dir m) (stamp (now_stamp inp)))])"

text \<open>
  Lines 167 to 174: the frame is written, then the age of the session is tested. A
  writer or a start time that is \<^verbatim>\<open>None\<close> makes Python raise, after what was done before.
\<close>

definition write_frame ::
  "monitor \<Rightarrow> 'p cycle_in \<Rightarrow> 'p frame \<Rightarrow> 'p loop_state
     \<Rightarrow> (error \<times> 'p event list) + ('p loop_state \<times> 'p event list)" where
  "write_frame m inp fr st =
     (case video_writer st of
        None \<Rightarrow> Inl (Attribute_error, [])
      | Some w \<Rightarrow>
          (case record_start_time st of
             None \<Rightarrow> Inl (Type_error, [Writer_write w fr])
           | Some t0 \<Rightarrow>
               if time_check inp - t0 > record_seconds m
               then Inr (st\<lparr>video_writer := None, is_recording := False\<rparr>,
                         [Writer_write w fr, Writer_release w])
               else Inr (st, [Writer_write w fr])))"

text \<open>Python's \<^verbatim>\<open>t % 30\<close> on a float: the remainder has the sign of the divisor.\<close>

definition mod30 :: "real \<Rightarrow> real" where
  "mod30 t = t - 30 * real_of_int \<lfloor>t / 30\<rfloor>"

text \<open>
  Lines 125 to 182, for a frame \<open>raw\<close> that was read. The result is the error raised and
  the events before it, or the next state and the events of the cycle.
\<close>

definition cycle ::
  "('p \<Rightarrow> image) \<Rightarrow> monitor \<Rightarrow> 'p loop_state \<Rightarrow> 'p cycle_in \<Rightarrow> 'p
     \<Rightarrow> (error \<times> 'p event list) + ('p loop_state \<times> 'p event list)" where
  "cycle smooth m st inp raw =
     (case detect_motion smooth m st raw of
        None \<Rightarrow> Inl (Cv2_error, [])
      | Some (motion_detected, fr) \<Rightarrow>
          (case (if motion_detected \<and> \<not> is_recording st then start_recording m inp fr st
                 else (st, [])) of
             (st1, ev1) \<Rightarrow>
               (case (if is_recording st1 then write_frame m inp fr st1 else Inr (st1, [])) of
                  Inl (e, ev2) \<Rightarrow> Inl (e, ev1 @ ev2)
                | Inr (st2, ev2) \<Rightarrow>
                    Inr (st2\<lparr>gray_first_frame :=
                               (if mod30 (time_refresh inp) < 1 then smooth raw
                                else gray_first_frame st2),
                             frame := Some (putText fr (now_overlay inp))\<rparr>,
                         ev1 @ ev2))))"

section \<open>The loop and the thread body\<close>

text \<open>
  The \<^verbatim>\<open>while\<close> loop over the cycles the environment offers. \<open>Pending\<close>: the inputs
  are used up and the loop is still running; \<open>Stopped\<close>: \<^verbatim>\<open>self.is_running\<close> was found
  false; \<open>Read_failed\<close>: \<^verbatim>\<open>ret\<close> was false (the \<^verbatim>\<open>break\<close>); \<open>Raised\<close>: an exception left
  the loop; \<open>Not_opened\<close>: the camera did not open and the loop was never entered.
\<close>

datatype loop_exit = Pending | Stopped | Read_failed | Raised error | Not_opened

fun while_loop ::
  "('p \<Rightarrow> image) \<Rightarrow> monitor \<Rightarrow> 'p loop_state \<Rightarrow> 'p cycle_in list
     \<Rightarrow> loop_exit \<times> 'p loop_state \<times> 'p event list" where
  "while_loop smooth m st [] = (Pending, st, [])"
| "while_loop smooth m st (inp # inps) =
     (if \<not> running inp then (Stopped, st, [])
      else case read inp of
        None \<Rightarrow> (Read_failed, st, [])
      | Some raw \<Rightarrow>
          (case cycle smooth m st inp raw of
             Inl (e, evs) \<Rightarrow> (Raised e, st, evs)
           | Inr (st', evs) \<Rightarrow>
               (case while_loop smooth m st' inps of
                  (x, st'', evs') \<Rightarrow> (x, st'', evs @ evs'))))"

text \<open>
  What the thread finds: whether the camera opened, the first frame read (\<open>None\<close> when
  the read gave no frame, on which \<^verbatim>\<open>cv2.cvtColor\<close> raises), and the cycles.
\<close>

record 'p camera_env =
  opened :: bool
  first_read :: "'p option"
  cycles :: "'p cycle_in list"

definition initial_state :: "image \<Rightarrow> 'p loop_state" where
  "initial_state gray =
     \<lparr>gray_first_frame = gray, is_recording = False, video_writer = None,
      record_start_time = None, frame = None\<rparr>"

text \<open>
  \<^verbatim>\<open>_monitor_loop\<close>: the object as the thread leaves it, the events, and how the loop
  ended. The writer still open is released after the loop, but not when an exception
  left the loop; the \<^verbatim>\<open>finally\<close> clause releases the camera and clears \<^verbatim>\<open>is_running\<close>.
\<close>

definition monitor_loop ::
  "('p \<Rightarrow> image) \<Rightarrow> monitor \<Rightarrow> 'p camera_env \<Rightarrow> monitor \<times> 'p event list \<times> loop_exit" where
  "monitor_loop smooth m env =
     (if \<not> opened env
      then (m\<lparr>is_running := False, camera := Some Cap_released\<rparr>, [], Not_opened)
      else case first_read env of
        None \<Rightarrow> (m\<lparr>is_running := False, camera := Some Cap_released\<rparr>, [], Raised Cv2_error)
      | Some first_frame \<Rightarrow>
          (case while_loop smooth m (initial_state (smooth first_frame)) (cycles env) of
             (Pending, st, evs) \<Rightarrow> (m\<lparr>camera := Some Cap_open\<rparr>, evs, Pending)
           | (Raised e, st, evs) \<Rightarrow>
               (m\<lparr>is_running := False, camera := Some Cap_released\<rparr>, evs, Raised e)
           | (x, st, evs) \<Rightarrow>
               (m\<lparr>is_running := False, camera := Some Cap_released\<rparr>,
                evs @ (case video_writer st of None \<Rightarrow> [] | Some w \<Rightarrow> [Writer_release w]),
                x)))"

text \<open>
  A call of \<^verbatim>\<open>start\<close> and, when it started one, the run of its thread on \<open>env\<close>: the
  message the caller of \<^verbatim>\<open>start\<close> gets, and what the thread made of the object.
\<close>

definition start_and_run ::
  "('p \<Rightarrow> image) \<Rightarrow> monitor \<Rightarrow> 'p camera_env
     \<Rightarrow> message \<times> monitor \<times> 'p event list \<times> loop_exit option" where
  "start_and_run smooth m env =
     (case start m of
        (msg, m', spawned) \<Rightarrow>
          if spawned
          then (case monitor_loop smooth m' env of (m'', evs, x) \<Rightarrow> (msg, m'', evs, Some x))
          else (msg, m', [], None))"

section \<open>The functions of the module\<close>

text \<open>
  The module keeps one global, \<^verbatim>\<open>security_monitor_instance\<close>, a reference to a monitor or
  \<^verbatim>\<open>None\<close>. \<open>objects\<close> are the monitors created so far (a started monitor stays alive
  through its thread), a reference is an index into them.
\<close>

record module_state =
  objects :: "monitor list"
  security_monitor_instance :: "nat option"

definition module_init :: module_state where
  "module_init = \<lparr>objects = [], security_monitor_instance = None\<rparr>"

definition start_security_monitoring ::
  "int \<Rightarrow> real \<Rightarrow> real \<Rightarrow> string \<Rightarrow> module_state \<Rightarrow> message \<times> module_state" where
  "start_security_monitoring cid sens secs method g =
     (case start (new_monitor cid sens 500 secs method ''security_recordings'') of
        (msg, m', spawned) \<Rightarrow> (msg, g\<lparr>objects := objects g @ [m']\<rparr>))"

text \<open>
  \<open>None\<close> is returned for a state in which the reference names no object, which is not
  a state of the Python module.
\<close>

definition stop_security_monitoring :: "module_state \<Rightarrow> (message \<times> module_state) option" where
  "stop_security_monitoring g =
     (case security_monitor_instance g of
        Some i \<Rightarrow>
          (if i < length (objects g)
           then (case stop (objects g ! i) of
                   (result, m') \<Rightarrow>
                     Some (result, g\<lparr>objects := (objects g)[i := m'],
                                      security_monitor_instance := None\<rparr>))
           else None)
      | None \<Rightarrow> Some (Msg_was_not_started, g))"

section \<open>Notions the statements use\<close>

text \<open>An image without a set pixel; a difference image without a pixel above the threshold.\<close>

definition blank :: "image \<Rightarrow> bool" where
  "blank img = list_all (list_all (\<lambda>p. p = 0)) img"

definition quiet :: "real \<Rightarrow> image \<Rightarrow> bool" where
  "quiet sens frame_delta = list_all (list_all (\<lambda>p. \<not> sens < real p)) frame_delta"

text \<open>\<open>covers a b\<close>: the images have one shape and every pixel of \<open>b\<close> is at most that of \<open>a\<close>.\<close>

definition covers :: "image \<Rightarrow> image \<Rightarrow> bool" where
  "covers a b = (shape a = shape b \<and> (\<forall>x y. px b x y \<le> px a x y))"


text \<open>The events by kind, and the frame an event stores in a file.\<close>

fun is_open :: "'p event \<Rightarrow> bool" where
  "is_open (VideoWriter_open w) = True"
| "is_open e = False"

fun is_release :: "'p event \<Rightarrow> bool" where
  "is_release (Writer_release w) = True"
| "is_release e = False"

fun is_imwrite :: "'p event \<Rightarrow> bool" where
  "is_imwrite (Imwrite f fr) = True"
| "is_imwrite e = False"

fun is_notification :: "'p event \<Rightarrow> bool" where
  "is_notification (Send_notification f) = True"
| "is_notification e = False"

fun written :: "'p event \<Rightarrow> 'p frame option" where
  "written (Imwrite f fr) = Some fr"
| "written (Writer_write w fr) = Some fr"
| "written e = None"

definition count :: "('a \<Rightarrow> bool) \<Rightarrow> 'a list \<Rightarrow> nat" where
  "count P xs = length (filter P xs)"

fun is_text :: "draw \<Rightarrow> bool" where
  "is_text (PutText t) = True"
| "is_text d = False"

definition has_overlay :: "'p frame \<Rightarrow> bool" where
  "has_overlay fr = list_ex is_text (drawn fr)"

text \<open>The area of the bounding rectangle of a contour.\<close>

definition bounding_area :: "contour \<Rightarrow> int" where
  "bounding_area c = (case boundingRect c of (x, y, w, h) \<Rightarrow> w * h)"

text \<open>The three variables of a session agree: a writer and a start time exactly while recording.\<close>

definition consistent :: "'p loop_state \<Rightarrow> bool" where
  "consistent st =
     ((is_recording st \<longleftrightarrow> video_writer st \<noteq> None) \<and>
      (is_recording st \<longrightarrow> record_start_time st \<noteq> None))"

subsection \<open>Example inputs\<close>

text \<open>
  Grey frames of 5 by 5 pixels, taken as they are (\<open>smooth\<close> is the identity): a dark
  one, a dim one, and one with a single bright pixel in the middle, which the two dilations grow to
  the whole frame. \<open>bridge\<close> is a difference image of 3 by 9 pixels: two bright pixels
  joined by a dim line.
\<close>

definition dark :: image where
  "dark = [[0, 0, 0, 0, 0], [0, 0, 0, 0, 0], [0, 0, 0, 0, 0], [0, 0, 0, 0, 0], [0, 0, 0, 0, 0]]"

definition spot :: image where
  "spot = [[0, 0, 0, 0, 0], [0, 0, 0, 0, 0], [0, 0, 255, 0, 0], [0, 0, 0, 0, 0], [0, 0, 0, 0, 0]]"


definition dark3 :: image where
  "dark3 = [[0, 0, 0, 0, 0, 0, 0, 0, 0], [0, 0, 0, 0, 0, 0, 0, 0, 0], [0, 0, 0, 0, 0, 0, 0, 0, 0]]"

definition bridge :: image where
  "bridge = [[0, 0, 0, 0, 0, 0, 0, 0, 0], [0, 200, 50, 50, 50, 50, 50, 200, 0],
             [0, 0, 0, 0, 0, 0, 0, 0, 0]]"

text \<open>
  A monitor with the defaults of the constructor, and one that takes a region of 10
  pixels for motion.
\<close>

definition default_monitor :: monitor where
  "default_monitor = new_monitor 0 20 500 10 ''email'' ''security_recordings''"

definition keen_monitor :: monitor where
  "keen_monitor = new_monitor 0 20 10 10 ''email'' ''security_recordings''"

text \<open>A cycle that reads \<open>img\<close> with every clock reading of the cycle at \<open>t\<close>.\<close>

definition at_time :: "real \<Rightarrow> 'p \<Rightarrow> 'p cycle_in" where
  "at_time t img =
     \<lparr>running = True, read = Some img, now_stamp = t, time_start = t, time_check = t,
      time_refresh = t, now_overlay = t\<rparr>"

text \<open>The state of a session that started at \<open>t0\<close>, with reference \<open>g\<close>.\<close>

definition recording_since :: "real \<Rightarrow> image \<Rightarrow> 'p loop_state" where
  "recording_since t0 g =
     \<lparr>gray_first_frame = g, is_recording = True,
      video_writer = Some (Video ''security_recordings'' (stamp t0)),
      record_start_time = Some t0, frame = None\<rparr>"

section \<open>Properties of the image operations\<close>

subsection \<open>A mask without a set pixel has no contour\<close>

lemma px_blank: "blank img \<Longrightarrow> px img x y = 0"
  by (auto simp: px_def blank_def list_all_length)

lemma dilate_cols_blank: "blank img \<Longrightarrow> list_all (\<lambda>p. p = 0) (dilate_cols img y x r)"
  by (induction r arbitrary: x) (simp_all add: neighbourhood_def px_blank)

lemma dilate_rows_blank: "blank img \<Longrightarrow> blank (dilate_rows img y rs)"
  by (induction rs arbitrary: y) (simp_all add: blank_def dilate_cols_blank)

lemma dilate_blank: "blank img \<Longrightarrow> blank (dilate img)"
  by (simp add: dilate_def dilate1_def dilate_rows_blank)

lemma foreground_blank: "blank img \<Longrightarrow> foreground img = []"
  by (auto simp: foreground_def blank_def list_all_length filter_empty_conv)

lemma findContours_blank: "blank img \<Longrightarrow> findContours img = []"
  by (simp add: findContours_def foreground_blank)

lemma cvFloor_in_range:
  "- 2147483648 \<le> v \<Longrightarrow> v < 2147483648 \<Longrightarrow> cvFloor v = \<lfloor>v\<rfloor>"
  by (simp add: cvFloor_def)

lemma threshold_quiet:
  assumes "quiet sens d" and "- 2147483648 \<le> sens" and "sens < 2147483648"
  shows "blank (threshold d sens)"
proof -
  define i where "i = \<lfloor>sens\<rfloor>"
  define g where
    "g = (\<lambda>p. if i < 0 then 255 else if 255 \<le> i then 0
               else if i < int p then 255 else (0::nat))"
  have fl: "cvFloor sens = i"
    using assms(2,3) by (simp add: cvFloor_in_range i_def)
  have zero: "g p = 0" if "\<not> sens < real p" for p
  proof -
    from that have "real p \<le> sens" by simp
    then have "int p \<le> i" unfolding i_def by (simp add: le_floor_iff)
    then show ?thesis by (simp add: g_def)
  qed
  have th: "threshold d sens = map (map g) d"
    by (simp add: threshold_def fl g_def)
  from assms(1) have "\<forall>r \<in> set d. \<forall>p \<in> set r. g p = 0"
    by (simp add: quiet_def list_all_iff zero)
  then show ?thesis
    unfolding th by (simp add: blank_def list_all_iff)
qed

lemma detect_quiet:
  assumes "absdiff gray_first gray = Some d" and "quiet sens d"
    and "- 2147483648 \<le> sens" and "sens < 2147483648"
  shows "detect sens area gray_first gray fr = Some (False, fr)"
  using assms
  by (simp add: detect_def detect_contours_def motion_mask_def findContours_blank dilate_blank
      threshold_quiet)

subsection \<open>Raising the threshold shrinks the mask\<close>

lemma length_dilate_cols: "length (dilate_cols img y x r) = length r"
  by (induction r arbitrary: x) simp_all

lemma nth_dilate_cols:
  "i < length r \<Longrightarrow> dilate_cols img y x r ! i = foldr max (neighbourhood img (x + int i) y) 0"
proof (induction r arbitrary: x i)
  case Nil
  then show ?case by simp
next
  case (Cons p ps)
  show ?case
  proof (cases i)
    case 0
    then show ?thesis by simp
  next
    case (Suc j)
    with Cons.prems have "j < length ps" by simp
    from Cons.IH [OF this, of "x + 1"] Suc show ?thesis by (simp add: algebra_simps)
  qed
qed

lemma length_dilate_rows: "length (dilate_rows img y rs) = length rs"
  by (induction rs arbitrary: y) simp_all

lemma nth_dilate_rows:
  "j < length rs \<Longrightarrow> dilate_rows img y rs ! j = dilate_cols img (y + int j) 0 (rs ! j)"
proof (induction rs arbitrary: y j)
  case Nil
  then show ?case by simp
next
  case (Cons r rs)
  show ?case
  proof (cases j)
    case 0
    then show ?thesis by simp
  next
    case (Suc k)
    with Cons.prems have "k < length rs" by simp
    from Cons.IH [OF this, of "y + 1"] Suc show ?thesis by (simp add: algebra_simps)
  qed
qed

lemma shape_dilate1: "shape (dilate1 img) = shape img"
  by (rule nth_equalityI)
    (simp_all add: shape_def dilate1_def length_dilate_rows nth_dilate_rows length_dilate_cols)

lemma px_dilate1:
  "px (dilate1 img) x y =
     (if 0 \<le> y \<and> y < int (length img) \<and> 0 \<le> x \<and> x < int (length (img ! nat y))
      then foldr max (neighbourhood img x y) 0 else 0)"
proof (cases "0 \<le> y \<and> y < int (length img)")
  case row: True
  then have j: "nat y < length img" by linarith
  have len: "length (dilate1 img ! nat y) = length (img ! nat y)"
    using j by (simp add: dilate1_def nth_dilate_rows length_dilate_cols)
  show ?thesis
  proof (cases "0 \<le> x \<and> x < int (length (img ! nat y))")
    case True
    then have i: "nat x < length (img ! nat y)" by linarith
    have "dilate1 img ! nat y ! nat x = foldr max (neighbourhood img x y) 0"
      using j i row True by (simp add: dilate1_def nth_dilate_rows nth_dilate_cols)
    then show ?thesis
      using row True len by (simp add: px_def dilate1_def length_dilate_rows)
  next
    case False
    then show ?thesis
      using row len by (auto simp: px_def dilate1_def length_dilate_rows)
  qed
next
  case False
  then show ?thesis by (auto simp: px_def dilate1_def length_dilate_rows)
qed


lemma shape_nth: "shape a = shape b \<Longrightarrow> length a = length b \<and> (\<forall>j < length a. length (a ! j) = length (b ! j))"
  by (metis length_map nth_map shape_def)

lemma foldr_max_mono:
  "list_all2 (\<le>) xs ys \<Longrightarrow> foldr max xs (0::nat) \<le> foldr max ys 0"
  by (induction xs ys rule: list_all2_induct) (auto simp: max.coboundedI1 max.coboundedI2)

lemma covers_dilate1: "covers a b \<Longrightarrow> covers (dilate1 a) (dilate1 b)"
  unfolding covers_def
proof (intro conjI allI)
  assume h: "shape a = shape b \<and> (\<forall>x y. px b x y \<le> px a x y)"
  then show "shape (dilate1 a) = shape (dilate1 b)" by (simp add: shape_dilate1)
  fix x y
  from h have le: "px b u v \<le> px a u v" for u v by simp
  have mono: "foldr max (neighbourhood b x y) 0 \<le> foldr max (neighbourhood a x y) 0"
    by (rule foldr_max_mono) (simp add: neighbourhood_def le)
  from h have "length a = length b" and "\<forall>j < length a. length (a ! j) = length (b ! j)"
    using shape_nth by blast+
  then have "(0 \<le> y \<and> y < int (length b) \<and> 0 \<le> x \<and> x < int (length (b ! nat y)))
           = (0 \<le> y \<and> y < int (length a) \<and> 0 \<le> x \<and> x < int (length (a ! nat y)))"
    by (metis nat_less_iff)
  then show "px (dilate1 b) x y \<le> px (dilate1 a) x y"
    using mono by (simp add: px_dilate1)
qed

lemma shape_threshold: "shape (threshold d s) = shape d"
  by (simp add: shape_def threshold_def)

lemma px_threshold:
  "px (threshold d s) x y =
     (if 0 \<le> y \<and> y < int (length d) \<and> 0 \<le> x \<and> x < int (length (d ! nat y))
      then (if cvFloor s < 0 then 255
            else if 255 \<le> cvFloor s then 0
            else if cvFloor s < int (d ! nat y ! nat x) then 255 else 0)
      else 0)"
proof (cases "0 \<le> y \<and> y < int (length d)")
  case row: True
  then have j: "nat y < length d" by linarith
  show ?thesis
  proof (cases "0 \<le> x \<and> x < int (length (d ! nat y))")
    case True
    then have i: "nat x < length (d ! nat y)" by linarith
    show ?thesis using row True j i by (simp add: px_def threshold_def)
  next
    case False
    then show ?thesis using row j by (auto simp: px_def threshold_def)
  qed
next
  case False
  then show ?thesis by (auto simp: px_def threshold_def)
qed

lemma threshold_pixel_mono:
  assumes "(i1::int) \<le> i2"
  shows "(if i2 < 0 then 255 else if 255 \<le> i2 then 0 else if i2 < p then 255 else (0::nat))
       \<le> (if i1 < 0 then 255 else if 255 \<le> i1 then 0 else if i1 < p then 255 else 0)"
  using assms by auto

lemma covers_threshold:
  assumes "s1 \<le> s2" and "- 2147483648 \<le> s1" and "s2 < 2147483648"
  shows "covers (threshold d s1) (threshold d s2)"
proof -
  define i1 i2 where "i1 = \<lfloor>s1\<rfloor>" and "i2 = \<lfloor>s2\<rfloor>"
  have f1: "cvFloor s1 = i1" and f2: "cvFloor s2 = i2"
    using assms by (simp_all add: cvFloor_in_range i1_def i2_def)
  have le: "i1 \<le> i2"
    unfolding i1_def i2_def using assms(1) by (rule floor_mono)
  show ?thesis
    unfolding covers_def
  proof (intro conjI allI)
    show "shape (threshold d s1) = shape (threshold d s2)"
      by (simp add: shape_threshold)
  next
    fix x y
    show "px (threshold d s2) x y \<le> px (threshold d s1) x y"
      unfolding px_threshold f1 f2 using threshold_pixel_mono [OF le] by simp
  qed
qed

lemma covers_foreground: 
  assumes "covers a b"
  shows "length (foreground b) \<le> length (foreground a)"
proof -
  from assms have len: "length a = length b" and rows: "\<forall>j < length a. length (a ! j) = length (b ! j)"
    using shape_nth unfolding covers_def by blast+
  from assms have le: "\<And>u v. px b u v \<le> px a u v" by (simp add: covers_def)
  have row: "length (filter (\<lambda>x. b ! j ! x \<noteq> 0) [0 ..< length (b ! j)])
          \<le> length (filter (\<lambda>x. a ! j ! x \<noteq> 0) [0 ..< length (a ! j)])" if j: "j < length a" for j
  proof -
    have eq: "length (b ! j) = length (a ! j)" using rows j by simp
    have imp: "b ! j ! x \<noteq> 0 \<longrightarrow> a ! j ! x \<noteq> 0" if "x < length (a ! j)" for x
      using le [of "int x" "int j"] that j len eq by (simp add: px_def)
    have "length (filter (\<lambda>x. b ! j ! x \<noteq> 0) [0 ..< length (a ! j)])
          \<le> length (filter (\<lambda>x. a ! j ! x \<noteq> 0) [0 ..< length (a ! j)])"
      unfolding length_filter_conv_card
      by (rule card_mono) (use imp in auto)
    then show ?thesis by (simp add: eq)
  qed
  show ?thesis
    unfolding foreground_def length_concat map_map comp_def length_map len [symmetric]
    by (rule sum_list_mono) (use row in auto)
qed

section \<open>The cases of a cycle\<close>

lemma cycle_idle_quiet:
  assumes "\<not> is_recording st" and "detect_motion smooth m st raw = Some (False, fr)"
  shows "cycle smooth m st inp raw =
           Inr (st\<lparr>gray_first_frame :=
                     (if mod30 (time_refresh inp) < 1 then smooth raw else gray_first_frame st),
                   frame := Some (putText fr (now_overlay inp))\<rparr>, [])"
  using assms by (simp add: cycle_def)

lemma cycle_idle_motion:
  assumes "\<not> is_recording st" and "detect_motion smooth m st raw = Some (True, fr)"
  shows "cycle smooth m st inp raw =
           Inr ((if record_seconds m < time_check inp - time_start inp
                 then st\<lparr>video_writer := None, is_recording := False,
                         record_start_time := Some (time_start inp)\<rparr>
                 else st\<lparr>video_writer := Some (Video (save_dir m) (stamp (now_stamp inp))),
                         is_recording := True,
                         record_start_time := Some (time_start inp)\<rparr>)
                \<lparr>gray_first_frame :=
                     (if mod30 (time_refresh inp) < 1 then smooth raw else gray_first_frame st),
                   frame := Some (putText fr (now_overlay inp))\<rparr>,
                [VideoWriter_open (Video (save_dir m) (stamp (now_stamp inp))),
                 Imwrite (Screenshot (save_dir m) (stamp (now_stamp inp))) fr,
                 Send_notification (Screenshot (save_dir m) (stamp (now_stamp inp))),
                 Writer_write (Video (save_dir m) (stamp (now_stamp inp))) fr]
                @ (if record_seconds m < time_check inp - time_start inp
                   then [Writer_release (Video (save_dir m) (stamp (now_stamp inp)))] else []))"
  using assms by (simp add: cycle_def start_recording_def write_frame_def)

lemma cycle_recording:
  assumes "is_recording st" and "video_writer st = Some w" and "record_start_time st = Some t0"
    and "detect_motion smooth m st raw = Some (md, fr)"
  shows "cycle smooth m st inp raw =
           Inr ((if record_seconds m < time_check inp - t0
                 then st\<lparr>video_writer := None, is_recording := False\<rparr> else st)
                \<lparr>gray_first_frame :=
                     (if mod30 (time_refresh inp) < 1 then smooth raw else gray_first_frame st),
                   frame := Some (putText fr (now_overlay inp))\<rparr>,
                Writer_write w fr
                # (if record_seconds m < time_check inp - t0 then [Writer_release w] else []))"
  using assms by (simp add: cycle_def write_frame_def)

lemma cycle_Inr_detect:
  assumes "cycle smooth m st inp raw = Inr (st', evs)"
  obtains md fr where "detect_motion smooth m st raw = Some (md, fr)"
  using assms by (auto simp: cycle_def split: option.splits)

lemma cycle_Inr_recording:
  assumes "cycle smooth m st inp raw = Inr (st', evs)" and "is_recording st"
  obtains w t0 where "video_writer st = Some w" and "record_start_time st = Some t0"
  using assms by (auto simp: cycle_def write_frame_def split: option.splits prod.splits if_splits)

section \<open>The example inputs, evaluated\<close>

lemma contours_spot: "detect_contours 20 dark spot = Some [[(0, 0), (0, 4), (4, 4), (4, 0)]]"
  by code_simp

lemma monitor_fields:
  "sensitivity default_monitor = 20" "min_area default_monitor = 500"
  "record_seconds default_monitor = 10" "save_dir default_monitor = ''security_recordings''"
  "sensitivity keen_monitor = 20" "min_area keen_monitor = 10"
  "record_seconds keen_monitor = 10" "save_dir keen_monitor = ''security_recordings''"
  by (simp_all add: default_monitor_def keen_monitor_def new_monitor_def)

lemma area_spot: "contourArea [(0, 0), (0, 4), (4, 4), (4, 0)] = 16"
  by (simp add: contourArea_def)

lemma rect_spot: "boundingRect [(0, 0), (0, 4), (4, 4), (4, 0)] = (0, 0, 5, 5)"
  by (simp add: boundingRect_def)

lemma detect_dark:
  assumes "gray_first_frame st = dark" and "0 \<le> sensitivity m"
    and "sensitivity m < 2147483648"
  shows "detect_motion (\<lambda>x. x) m st dark = Some (False, \<lparr>pixels = dark, drawn = []\<rparr>)"
  unfolding detect_motion_def
  by (rule detect_quiet [where d = dark])
    (use assms in \<open>simp_all add: absdiff_def shape_def dark_def quiet_def\<close>)

lemma detect_spot_default:
  assumes "gray_first_frame st = dark"
  shows "detect_motion (\<lambda>x. x) default_monitor st spot = Some (False, \<lparr>pixels = spot, drawn = []\<rparr>)"
  using assms
  by (simp add: detect_motion_def detect_def contours_spot monitor_fields area_spot)

lemma detect_spot_keen:
  assumes "gray_first_frame st = dark"
  shows "detect_motion (\<lambda>x. x) keen_monitor st spot
           = Some (True, \<lparr>pixels = spot, drawn = [Rectangle 0 0 5 5]\<rparr>)"
  using assms
  by (simp add: detect_motion_def detect_def contours_spot monitor_fields area_spot rect_spot
      rectangle_def)

lemma mod30_100: "mod30 100 = 10"
  by (simp add: mod30_def)

lemma mod30_half: "mod30 (241 / 2) = 1 / 2"
proof -
  have "\<lfloor>(241 / 2 :: real) / 30\<rfloor> = 4" by (simp add: floor_eq_iff)
  then show ?thesis by (simp add: mod30_def)
qed

section \<open>The claims\<close>

text \<open>
  C8. In every cycle that runs to its end, the reference frame \<open>gray_first_frame\<close> is
  replaced by the smoothed grey frame of the cycle when the clock reading \<open>t\<close> of line
  177 has \<open>t mod 30 < 1\<close>, and is left as it was otherwise, whatever the state (idle or
  recording) and whatever the detection found.
\<close>

theorem reference_refresh:
  assumes "cycle smooth m st inp raw = Inr (st', evs)"
  shows "gray_first_frame st' =
           (if mod30 (time_refresh inp) < 1 then smooth raw else gray_first_frame st)"
  using assms
  by (auto simp: cycle_def start_recording_def write_frame_def
      split: option.splits prod.splits if_splits sum.splits)

theorem reference_refresh_witness:
  "cycle (\<lambda>x. x) default_monitor (initial_state dark) (at_time (241 / 2) spot) spot
     = Inr ((initial_state dark)
              \<lparr>gray_first_frame := spot,
               frame := Some \<lparr>pixels = spot, drawn = [PutText (241 / 2)]\<rparr>\<rparr>, [])
   \<and> gray_first_frame
        ((initial_state dark)
           \<lparr>gray_first_frame := spot,
            frame := Some \<lparr>pixels = spot, drawn = [PutText (241 / 2)]\<rparr>\<rparr>) = spot
   \<and> cycle (\<lambda>x. x) default_monitor (initial_state dark) (at_time 100 spot) spot
     = Inr ((initial_state dark)
              \<lparr>frame := Some \<lparr>pixels = spot, drawn = [PutText 100]\<rparr>\<rparr>, [])
   \<and> gray_first_frame
        ((initial_state dark)\<lparr>frame := Some \<lparr>pixels = spot, drawn = [PutText 100]\<rparr>\<rparr>) = dark"
proof -
  have idle: "\<not> is_recording (initial_state dark :: image loop_state)"
    and ref: "gray_first_frame (initial_state dark :: image loop_state) = dark"
    by (simp_all add: initial_state_def)
  have c1: "cycle (\<lambda>x. x) default_monitor (initial_state dark) (at_time (241 / 2) spot) spot
     = Inr ((initial_state dark)
              \<lparr>gray_first_frame := spot,
               frame := Some \<lparr>pixels = spot, drawn = [PutText (241 / 2)]\<rparr>\<rparr>, [])"
    using cycle_idle_quiet [OF idle detect_spot_default [OF ref], of "at_time (241 / 2) spot"]
    by (simp add: at_time_def mod30_half putText_def)
  have c2: "cycle (\<lambda>x. x) default_monitor (initial_state dark) (at_time 100 spot) spot
     = Inr ((initial_state dark)
              \<lparr>frame := Some \<lparr>pixels = spot, drawn = [PutText 100]\<rparr>\<rparr>, [])"
    using cycle_idle_quiet [OF idle detect_spot_default [OF ref], of "at_time 100 spot"]
    by (simp add: at_time_def mod30_100 putText_def initial_state_def)
  show ?thesis
    using c1 c2 reference_refresh [OF c1] reference_refresh [OF c2] ref
    by (simp add: at_time_def mod30_half mod30_100)
qed

subsection \<open>The end of a session\<close>

lemma while_loop_Pending_Cons:
  assumes "while_loop smooth m st (inp # inps) = (Pending, st', evs)"
  obtains raw st1 evs1 evs2 where "running inp" and "read inp = Some raw"
    and "cycle smooth m st inp raw = Inr (st1, evs1)"
    and "while_loop smooth m st1 inps = (Pending, st', evs2)" and "evs = evs1 @ evs2"
  using assms
  by (auto split: if_splits option.splits sum.splits prod.splits)

lemma while_loop_snoc:
  assumes "while_loop smooth m st (inps @ [inp]) = (Pending, st', evs)"
  shows "\<exists>raw st1 evs1 evs2. while_loop smooth m st inps = (Pending, st1, evs1)
           \<and> running inp \<and> read inp = Some raw
           \<and> cycle smooth m st1 inp raw = Inr (st', evs2) \<and> evs = evs1 @ evs2"
  using assms
proof (induction inps arbitrary: st evs)
  case Nil
  then show ?case
    by (auto split: if_splits option.splits sum.splits prod.splits)
next
  case (Cons i inps)
  from Cons.prems have "while_loop smooth m st (i # (inps @ [inp])) = (Pending, st', evs)"
    by simp
  then obtain raw0 st0 e0 e1 where
    i: "running i" "read i = Some raw0" "cycle smooth m st i raw0 = Inr (st0, e0)"
    and rest: "while_loop smooth m st0 (inps @ [inp]) = (Pending, st', e1)" and evs: "evs = e0 @ e1"
    by (rule while_loop_Pending_Cons)
  from Cons.IH [OF rest] obtain raw st1 evs1 evs2 where
    a: "while_loop smooth m st0 inps = (Pending, st1, evs1)"
    and b: "running inp" "read inp = Some raw" "cycle smooth m st1 inp raw = Inr (st', evs2)"
    and c: "e1 = evs1 @ evs2"
    by blast
  have "while_loop smooth m st (i # inps) = (Pending, st1, e0 @ evs1)"
    using i a by simp
  with b c evs show ?case by simp
qed

lemma cycle_keeps_young_session:
  assumes "cycle smooth m st inp raw = Inr (st', evs)" and "is_recording st"
    and "record_start_time st = Some t0" and "time_check inp - t0 \<le> record_seconds m"
  shows "is_recording st' \<and> record_start_time st' = Some t0 \<and> video_writer st' = video_writer st
       \<and> filter is_release evs = [] \<and> filter is_open evs = [] \<and> filter is_notification evs = []"
proof -
  from assms(1,2) obtain w t where w: "video_writer st = Some w" and t: "record_start_time st = Some t"
    by (rule cycle_Inr_recording)
  from assms(1) obtain md fr where d: "detect_motion smooth m st raw = Some (md, fr)"
    by (rule cycle_Inr_detect)
  from t assms(3) have "t = t0" by simp
  with cycle_recording [OF assms(2) w t d, of inp] assms(1,2,4) w t show ?thesis
    by auto
qed

lemma run_keeps_young_session:
  assumes "while_loop smooth m st inps = (Pending, st', evs)" and "is_recording st"
    and "record_start_time st = Some t0"
    and "\<forall>i \<in> set inps. time_check i - t0 \<le> record_seconds m"
  shows "is_recording st' \<and> record_start_time st' = Some t0 \<and> video_writer st' = video_writer st
       \<and> filter is_release evs = [] \<and> filter is_open evs = [] \<and> filter is_notification evs = []"
  using assms
proof (induction inps arbitrary: st evs)
  case Nil
  then show ?case by simp
next
  case (Cons i inps)
  from Cons.prems(1) obtain raw st1 e1 e2 where
    c: "cycle smooth m st i raw = Inr (st1, e1)"
    and r: "while_loop smooth m st1 inps = (Pending, st', e2)" and evs: "evs = e1 @ e2"
    by (rule while_loop_Pending_Cons)
  from Cons.prems(4) have young: "time_check i - t0 \<le> record_seconds m" by simp
  note k = cycle_keeps_young_session [OF c Cons.prems(2,3) young]
  from Cons.prems(4) have rest: "\<forall>i \<in> set inps. time_check i - t0 \<le> record_seconds m" by simp
  from Cons.IH [OF r _ _ rest] k evs show ?case by simp
qed

lemma cycle_dark_recording:
  fixes st :: "image loop_state"
  assumes "gray_first_frame st = dark" and "is_recording st" and "video_writer st = Some w"
    and "record_start_time st = Some t0" and "\<not> mod30 t < 1"
  shows "cycle (\<lambda>x. x) default_monitor st (at_time t dark) dark
          = Inr ((if 10 < t - t0 then st\<lparr>video_writer := None, is_recording := False\<rparr> else st)
                   \<lparr>frame := Some \<lparr>pixels = dark, drawn = [PutText t]\<rparr>\<rparr>,
                 Writer_write w \<lparr>pixels = dark, drawn = []\<rparr>
                 # (if 10 < t - t0 then [Writer_release w] else []))"
proof -
  have d: "detect_motion (\<lambda>x. x) default_monitor st dark = Some (False, \<lparr>pixels = dark, drawn = []\<rparr>)"
    by (rule detect_dark) (simp_all add: assms monitor_fields)
  from cycle_recording [OF assms(2,3,4) d, of "at_time t dark"] assms(1,5) show ?thesis
    by (simp add: at_time_def monitor_fields putText_def)
qed

lemma mod30_examples: "\<not> mod30 105 < 1" "\<not> mod30 110 < 1" "\<not> mod30 111 < 1" "\<not> mod30 100 < 1"
  by (simp_all add: mod30_def)

lemma session_example:
  "while_loop (\<lambda>x. x) default_monitor (recording_since 100 dark)
     ([at_time 105 dark, at_time 110 dark] @ [at_time 111 dark])
   = (Pending,
      \<lparr>gray_first_frame = dark, is_recording = False, video_writer = None,
       record_start_time = Some 100, frame = Some \<lparr>pixels = dark, drawn = [PutText 111]\<rparr>\<rparr>,
      [Writer_write (Video ''security_recordings'' 100) \<lparr>pixels = dark, drawn = []\<rparr>,
       Writer_write (Video ''security_recordings'' 100) \<lparr>pixels = dark, drawn = []\<rparr>,
       Writer_write (Video ''security_recordings'' 100) \<lparr>pixels = dark, drawn = []\<rparr>,
       Writer_release (Video ''security_recordings'' 100)])"
proof -
  let ?w = "Video ''security_recordings'' 100"
  let ?s0 = "recording_since 100 dark :: image loop_state"
  let ?s1 = "?s0\<lparr>frame := Some \<lparr>pixels = dark, drawn = [PutText 105]\<rparr>\<rparr>"
  let ?s2 = "?s0\<lparr>frame := Some \<lparr>pixels = dark, drawn = [PutText 110]\<rparr>\<rparr>"
  have c1: "cycle (\<lambda>x. x) default_monitor ?s0 (at_time 105 dark) dark
              = Inr (?s1, [Writer_write ?w \<lparr>pixels = dark, drawn = []\<rparr>])"
    using cycle_dark_recording [of ?s0 ?w 100 105]
    by (simp add: recording_since_def stamp_def mod30_examples)
  have c2: "cycle (\<lambda>x. x) default_monitor ?s1 (at_time 110 dark) dark
              = Inr (?s2, [Writer_write ?w \<lparr>pixels = dark, drawn = []\<rparr>])"
    using cycle_dark_recording [of ?s1 ?w 100 110]
    by (simp add: recording_since_def stamp_def mod30_examples)
  have c3: "cycle (\<lambda>x. x) default_monitor ?s2 (at_time 111 dark) dark
              = Inr (\<lparr>gray_first_frame = dark, is_recording = False, video_writer = None,
                     record_start_time = Some 100,
                     frame = Some \<lparr>pixels = dark, drawn = [PutText 111]\<rparr>\<rparr>,
                    [Writer_write ?w \<lparr>pixels = dark, drawn = []\<rparr>, Writer_release ?w])"
    using cycle_dark_recording [of ?s2 ?w 100 111]
    by (simp add: recording_since_def stamp_def mod30_examples)
  show ?thesis
    using c1 c2 c3 by (simp add: at_time_def)
qed

text \<open>
  C1, as the code has it. A session that is active with start time \<open>t0\<close> stays open,
  with the same writer and the same start time, through every cycle whose clock reading
  \<open>t\<close> at line 170 has \<open>t - t0 \<le> record_seconds\<close>, and is closed (the writer released, the
  state idle again) in the first cycle with \<open>t - t0 > record_seconds\<close>, whatever the frames
  of those cycles show: the test of line 170 is strict. The run is one in which every
  cycle reads a frame and none raises.
\<close>

theorem session_closes_after_record_seconds:
  assumes "while_loop smooth m st (inps @ [inp]) = (Pending, st', evs)"
    and "is_recording st" and "record_start_time st = Some t0"
    and "\<forall>i \<in> set inps. time_check i - t0 \<le> record_seconds m"
    and "record_seconds m < time_check inp - t0"
  shows "\<exists>st1 evs1 w fr.
           while_loop smooth m st inps = (Pending, st1, evs1)
         \<and> is_recording st1 \<and> record_start_time st1 = Some t0
         \<and> video_writer st = Some w \<and> video_writer st1 = Some w
         \<and> filter is_release evs1 = []
         \<and> evs = evs1 @ [Writer_write w fr, Writer_release w]
         \<and> \<not> is_recording st' \<and> video_writer st' = None"
proof -
  from while_loop_snoc [OF assms(1)] obtain raw st1 evs1 evs2 where
    pre: "while_loop smooth m st inps = (Pending, st1, evs1)"
    and c: "cycle smooth m st1 inp raw = Inr (st', evs2)" and evs: "evs = evs1 @ evs2"
    by blast
  note k = run_keeps_young_session [OF pre assms(2,3,4)]
  then have rec1: "is_recording st1" and t1: "record_start_time st1 = Some t0" by simp_all
  from c rec1 obtain w t where w: "video_writer st1 = Some w" and t: "record_start_time st1 = Some t"
    by (rule cycle_Inr_recording)
  from c obtain md fr where d: "detect_motion smooth m st1 raw = Some (md, fr)"
    by (rule cycle_Inr_detect)
  from cycle_recording [OF rec1 w t1 d, of inp] c assms(5)
  have "evs2 = [Writer_write w fr, Writer_release w]" and "\<not> is_recording st'"
    and "video_writer st' = None"
    by auto
  with pre k w evs show ?thesis by auto
qed

theorem session_closes_after_record_seconds_witness:
  "is_recording (recording_since 100 dark :: image loop_state)
   \<and> time_check (at_time 110 dark :: image cycle_in) - 100 \<le> record_seconds default_monitor
   \<and> record_seconds default_monitor < time_check (at_time 111 dark :: image cycle_in) - 100
   \<and> (\<exists>st1 evs1 w fr.
         while_loop (\<lambda>x. x) default_monitor (recording_since 100 dark)
           [at_time 105 dark, at_time 110 dark] = (Pending, st1, evs1)
       \<and> is_recording st1 \<and> record_start_time st1 = Some 100
       \<and> video_writer (recording_since 100 dark :: image loop_state) = Some w
       \<and> video_writer st1 = Some w
       \<and> filter is_release evs1 = []
       \<and> [Writer_write (Video ''security_recordings'' 100) \<lparr>pixels = dark, drawn = []\<rparr>,
          Writer_write (Video ''security_recordings'' 100) \<lparr>pixels = dark, drawn = []\<rparr>,
          Writer_write (Video ''security_recordings'' 100) \<lparr>pixels = dark, drawn = []\<rparr>,
          Writer_release (Video ''security_recordings'' 100)]
         = evs1 @ [Writer_write w fr, Writer_release w])"
proof -
  have h2: "is_recording (recording_since 100 dark :: image loop_state)"
    and h3: "record_start_time (recording_since 100 dark :: image loop_state) = Some 100"
    by (simp_all add: recording_since_def)
  have h4: "\<forall>i \<in> set [at_time 105 dark, at_time 110 dark :: image cycle_in].
              time_check i - 100 \<le> record_seconds default_monitor"
    by (simp add: at_time_def monitor_fields)
  have h5: "record_seconds default_monitor < time_check (at_time 111 dark :: image cycle_in) - 100"
    by (simp add: at_time_def monitor_fields)
  from session_closes_after_record_seconds [OF session_example h2 h3 h4 h5] h2 h4 h5
  show ?thesis by auto
qed

text \<open>
  The claim as stated has the session closed in the first cycle with
  \<open>t - t0 \<ge> record_seconds\<close>. With \<open>record_seconds = 10\<close>, a session started at 100 and the
  clock at 110, the age is 10 and the cycle leaves the session open.
\<close>

theorem session_open_at_record_seconds_counterexample:
  "record_seconds default_monitor \<le> time_check (at_time 110 dark :: image cycle_in) - 100
   \<and> cycle (\<lambda>x. x) default_monitor (recording_since 100 dark) (at_time 110 dark) dark
     = Inr (\<lparr>gray_first_frame = dark, is_recording = True,
             video_writer = Some (Video ''security_recordings'' 100),
             record_start_time = Some 100,
             frame = Some \<lparr>pixels = dark, drawn = [PutText 110]\<rparr>\<rparr>,
            [Writer_write (Video ''security_recordings'' 100) \<lparr>pixels = dark, drawn = []\<rparr>])"
  using cycle_dark_recording [of "recording_since 100 dark" "Video ''security_recordings'' 100" 100 110]
  by (simp add: recording_since_def stamp_def mod30_examples at_time_def monitor_fields)

subsection \<open>Frames that do not differ from the reference\<close>





subsection \<open>Sessions do not overlap\<close>

lemma cycle_balance:
  assumes "consistent st" and "cycle smooth m st inp raw = Inr (st', evs)"
  shows "consistent st'
       \<and> count is_open evs + (if is_recording st then 1 else 0)
           = count is_release evs + (if is_recording st' then 1 else 0)
       \<and> count is_notification evs = count is_open evs"
proof -
  from assms(2) obtain md fr where d: "detect_motion smooth m st raw = Some (md, fr)"
    by (rule cycle_Inr_detect)
  show ?thesis
  proof (cases "is_recording st")
    case True
    with assms(2) obtain w t0 where w: "video_writer st = Some w"
      and t: "record_start_time st = Some t0"
      by (rule cycle_Inr_recording)
    from cycle_recording [OF True w t d, of inp] assms True w t show ?thesis
      by (auto simp: consistent_def count_def)
  next
    case idle: False
    show ?thesis
    proof (cases md)
      case True
      with cycle_idle_motion [OF idle, of smooth m raw fr inp] d assms idle show ?thesis
        by (auto simp: consistent_def count_def)
    next
      case False
      with cycle_idle_quiet [OF idle, of smooth m raw fr inp] d assms idle show ?thesis
        by (auto simp: consistent_def count_def)
    qed
  qed
qed

lemma cycle_raise_no_event:
  assumes "consistent st" and "cycle smooth m st inp raw = Inl (e, evs)"
  shows "evs = []"
  using assms
  by (auto simp: cycle_def start_recording_def write_frame_def consistent_def
      split: option.splits prod.splits if_splits sum.splits)

lemma run_balance:
  assumes "consistent st" and "while_loop smooth m st inps = (x, st', evs)"
  shows "consistent st'
       \<and> count is_open evs + (if is_recording st then 1 else 0)
           = count is_release evs + (if is_recording st' then 1 else 0)
       \<and> count is_notification evs = count is_open evs"
  using assms
proof (induction inps arbitrary: st evs)
  case Nil
  then show ?case by (auto simp: count_def)
next
  case (Cons inp inps)
  show ?case
  proof (cases "running inp")
    case False
    with Cons.prems show ?thesis by (auto simp: count_def)
  next
    case run: True
    show ?thesis
    proof (cases "read inp")
      case None
      with run Cons.prems show ?thesis by (auto simp: count_def)
    next
      case (Some raw)
      show ?thesis
      proof (cases "cycle smooth m st inp raw")
        case (Inl err)
        obtain e es where err: "err = (e, es)" by (cases err)
        with Inl cycle_raise_no_event [OF Cons.prems(1)] have "es = []" by blast
        with Inl err run Some Cons.prems show ?thesis by (auto simp: count_def)
      next
        case (Inr ok)
        obtain st1 e1 where ok: "ok = (st1, e1)" by (cases ok)
        from Inr ok have c: "cycle smooth m st inp raw = Inr (st1, e1)" by simp
        from Cons.prems(2) run Some c obtain e2 where
          r: "while_loop smooth m st1 inps = (x, st', e2)" and evs: "evs = e1 @ e2"
          by (auto split: prod.splits)
        note b1 = cycle_balance [OF Cons.prems(1) c]
        then have c1: "consistent st1" by simp
        note b2 = Cons.IH [OF c1 r]
        from b1 b2 evs show ?thesis by (auto simp: count_def)
      qed
    qed
  qed
qed

lemma consistent_initial: "consistent (initial_state g)"
  by (simp add: consistent_def initial_state_def)

lemma recording_cycle:
  assumes "is_recording st0" and "cycle smooth m st0 inp raw = Inr (st1, evs1)"
  shows "\<exists>w t0 md fr.
            video_writer st0 = Some w \<and> record_start_time st0 = Some t0
          \<and> detect_motion smooth m st0 raw = Some (md, fr)
          \<and> evs1 = Writer_write w fr
                   # (if record_seconds m < time_check inp - t0 then [Writer_release w] else [])
          \<and> record_start_time st1 = Some t0
          \<and> video_writer st1 = (if record_seconds m < time_check inp - t0 then None else Some w)
          \<and> is_recording st1 = (\<not> record_seconds m < time_check inp - t0)"
proof -
  from assms(2,1) obtain w t0 where w: "video_writer st0 = Some w"
    and t: "record_start_time st0 = Some t0"
    by (rule cycle_Inr_recording)
  from assms(2) obtain md fr where d: "detect_motion smooth m st0 raw = Some (md, fr)"
    by (rule cycle_Inr_detect)
  from cycle_recording [OF assms(1) w t d, of inp] assms w t d show ?thesis
    by auto
qed

lemma at_time_fields:
  "running (at_time t img)" "read (at_time t img) = Some img" "now_stamp (at_time t img) = t"
  "time_start (at_time t img) = t" "time_check (at_time t img) = t"
  "time_refresh (at_time t img) = t" "now_overlay (at_time t img) = t"
  by (simp_all add: at_time_def)

lemma keen_start:
  "cycle (\<lambda>x. x) keen_monitor (initial_state dark) (at_time 100 spot) spot
     = Inr (\<lparr>gray_first_frame = dark, is_recording = True,
             video_writer = Some (Video ''security_recordings'' 100),
             record_start_time = Some 100,
             frame = Some \<lparr>pixels = spot, drawn = [Rectangle 0 0 5 5, PutText 100]\<rparr>\<rparr>,
            [VideoWriter_open (Video ''security_recordings'' 100),
             Imwrite (Screenshot ''security_recordings'' 100)
               \<lparr>pixels = spot, drawn = [Rectangle 0 0 5 5]\<rparr>,
             Send_notification (Screenshot ''security_recordings'' 100),
             Writer_write (Video ''security_recordings'' 100)
               \<lparr>pixels = spot, drawn = [Rectangle 0 0 5 5]\<rparr>])"
proof -
  have idle: "\<not> is_recording (initial_state dark :: image loop_state)"
    and ref: "gray_first_frame (initial_state dark :: image loop_state) = dark"
    by (simp_all add: initial_state_def)
  from cycle_idle_motion [OF idle detect_spot_keen [OF ref], of "at_time 100 spot"]
  show ?thesis
    by (simp add: at_time_def monitor_fields mod30_100 putText_def initial_state_def stamp_def)
qed

lemma keen_motion_again:
  "cycle (\<lambda>x. x) keen_monitor
     \<lparr>gray_first_frame = dark, is_recording = True,
      video_writer = Some (Video ''security_recordings'' 100),
      record_start_time = Some 100,
      frame = Some \<lparr>pixels = spot, drawn = [Rectangle 0 0 5 5, PutText 100]\<rparr>\<rparr>
     (at_time 105 spot) spot
   = Inr (\<lparr>gray_first_frame = dark, is_recording = True,
           video_writer = Some (Video ''security_recordings'' 100),
           record_start_time = Some 100,
           frame = Some \<lparr>pixels = spot, drawn = [Rectangle 0 0 5 5, PutText 105]\<rparr>\<rparr>,
          [Writer_write (Video ''security_recordings'' 100)
             \<lparr>pixels = spot, drawn = [Rectangle 0 0 5 5]\<rparr>])"
  (is "cycle _ _ ?st _ _ = _")
proof -
  have d: "detect_motion (\<lambda>x. x) keen_monitor ?st spot
             = Some (True, \<lparr>pixels = spot, drawn = [Rectangle 0 0 5 5]\<rparr>)"
    by (rule detect_spot_keen) simp
  from cycle_recording [of ?st "Video ''security_recordings'' 100" 100, OF _ _ _ d,
      of "at_time 105 spot"]
  show ?thesis
    by (simp add: at_time_def monitor_fields mod30_examples putText_def)
qed

lemma keen_close:
  "cycle (\<lambda>x. x) keen_monitor
     \<lparr>gray_first_frame = dark, is_recording = True,
      video_writer = Some (Video ''security_recordings'' 100),
      record_start_time = Some 100,
      frame = Some \<lparr>pixels = spot, drawn = [Rectangle 0 0 5 5, PutText 105]\<rparr>\<rparr>
     (at_time 111 dark) dark
   = Inr (\<lparr>gray_first_frame = dark, is_recording = False, video_writer = None,
           record_start_time = Some 100,
           frame = Some \<lparr>pixels = dark, drawn = [PutText 111]\<rparr>\<rparr>,
          [Writer_write (Video ''security_recordings'' 100) \<lparr>pixels = dark, drawn = []\<rparr>,
           Writer_release (Video ''security_recordings'' 100)])"
  (is "cycle _ _ ?st _ _ = _")
proof -
  have d: "detect_motion (\<lambda>x. x) keen_monitor ?st dark
             = Some (False, \<lparr>pixels = dark, drawn = []\<rparr>)"
    by (rule detect_dark) (simp_all add: monitor_fields)
  from cycle_recording [of ?st "Video ''security_recordings'' 100" 100, OF _ _ _ d,
      of "at_time 111 dark"]
  show ?thesis
    by (simp add: at_time_def monitor_fields mod30_examples putText_def)
qed

lemma keen_run:
  "while_loop (\<lambda>x. x) keen_monitor (initial_state dark)
     [at_time 100 spot, at_time 105 spot, at_time 111 dark]
   = (Pending,
      \<lparr>gray_first_frame = dark, is_recording = False, video_writer = None,
       record_start_time = Some 100,
       frame = Some \<lparr>pixels = dark, drawn = [PutText 111]\<rparr>\<rparr>,
      [VideoWriter_open (Video ''security_recordings'' 100),
       Imwrite (Screenshot ''security_recordings'' 100)
         \<lparr>pixels = spot, drawn = [Rectangle 0 0 5 5]\<rparr>,
       Send_notification (Screenshot ''security_recordings'' 100),
       Writer_write (Video ''security_recordings'' 100)
         \<lparr>pixels = spot, drawn = [Rectangle 0 0 5 5]\<rparr>,
       Writer_write (Video ''security_recordings'' 100)
         \<lparr>pixels = spot, drawn = [Rectangle 0 0 5 5]\<rparr>,
       Writer_write (Video ''security_recordings'' 100) \<lparr>pixels = dark, drawn = []\<rparr>,
       Writer_release (Video ''security_recordings'' 100)])"
  by (simp add: keen_start keen_motion_again keen_close at_time_fields)

text \<open>
  C3. In a run of the loop from its initial state, whatever the frames and however the
  run ends, the writers opened are the writers released plus one if the loop is
  recording and plus none if it is idle: at most one session is active. And a cycle
  that begins while a session is active, whether or not it detects motion, opens no
  writer and leaves the start time of the session as it was: all it does to the session
  is to write the current frame to its writer and, when the age of the session is over
  \<^verbatim>\<open>record_seconds\<close>, to release that writer.
\<close>

theorem one_session_at_a_time:
  "(while_loop smooth m (initial_state g) inps = (x, st, evs) \<longrightarrow>
      count is_open evs = count is_release evs + (if is_recording st then 1 else 0))
   \<and> (is_recording st0 \<and> cycle smooth m st0 inp raw = Inr (st1, evs1) \<longrightarrow>
        (\<exists>w t0 md fr.
            video_writer st0 = Some w \<and> record_start_time st0 = Some t0
          \<and> detect_motion smooth m st0 raw = Some (md, fr)
          \<and> evs1 = Writer_write w fr
                   # (if record_seconds m < time_check inp - t0 then [Writer_release w] else [])
          \<and> record_start_time st1 = Some t0
          \<and> video_writer st1 = (if record_seconds m < time_check inp - t0 then None else Some w)
          \<and> is_recording st1 = (\<not> record_seconds m < time_check inp - t0)))"
proof (rule conjI)
  show "while_loop smooth m (initial_state g) inps = (x, st, evs) \<longrightarrow>
      count is_open evs = count is_release evs + (if is_recording st then 1 else 0)"
  proof
    assume "while_loop smooth m (initial_state g) inps = (x, st, evs)"
    from run_balance [OF consistent_initial this]
    show "count is_open evs = count is_release evs + (if is_recording st then 1 else 0)"
      by (simp add: initial_state_def)
  qed
next
  show "is_recording st0 \<and> cycle smooth m st0 inp raw = Inr (st1, evs1) \<longrightarrow>
        (\<exists>w t0 md fr.
            video_writer st0 = Some w \<and> record_start_time st0 = Some t0
          \<and> detect_motion smooth m st0 raw = Some (md, fr)
          \<and> evs1 = Writer_write w fr
                   # (if record_seconds m < time_check inp - t0 then [Writer_release w] else [])
          \<and> record_start_time st1 = Some t0
          \<and> video_writer st1 = (if record_seconds m < time_check inp - t0 then None else Some w)
          \<and> is_recording st1 = (\<not> record_seconds m < time_check inp - t0))"
    by (rule impI, elim conjE, rule recording_cycle)
qed

theorem one_session_at_a_time_witness:
  "while_loop (\<lambda>x. x) keen_monitor (initial_state dark)
     [at_time 100 spot, at_time 105 spot, at_time 111 dark]
   = (Pending,
      \<lparr>gray_first_frame = dark, is_recording = False, video_writer = None,
       record_start_time = Some 100,
       frame = Some \<lparr>pixels = dark, drawn = [PutText 111]\<rparr>\<rparr>,
      [VideoWriter_open (Video ''security_recordings'' 100),
       Imwrite (Screenshot ''security_recordings'' 100)
         \<lparr>pixels = spot, drawn = [Rectangle 0 0 5 5]\<rparr>,
       Send_notification (Screenshot ''security_recordings'' 100),
       Writer_write (Video ''security_recordings'' 100)
         \<lparr>pixels = spot, drawn = [Rectangle 0 0 5 5]\<rparr>,
       Writer_write (Video ''security_recordings'' 100)
         \<lparr>pixels = spot, drawn = [Rectangle 0 0 5 5]\<rparr>,
       Writer_write (Video ''security_recordings'' 100) \<lparr>pixels = dark, drawn = []\<rparr>,
       Writer_release (Video ''security_recordings'' 100)])
   \<and> count is_open
        [VideoWriter_open (Video ''security_recordings'' 100),
         Imwrite (Screenshot ''security_recordings'' 100)
           \<lparr>pixels = spot, drawn = [Rectangle 0 0 5 5]\<rparr>,
         Send_notification (Screenshot ''security_recordings'' 100),
         Writer_write (Video ''security_recordings'' 100)
           \<lparr>pixels = spot, drawn = [Rectangle 0 0 5 5]\<rparr>,
         Writer_write (Video ''security_recordings'' 100)
           \<lparr>pixels = spot, drawn = [Rectangle 0 0 5 5]\<rparr>,
         Writer_write (Video ''security_recordings'' 100) \<lparr>pixels = dark, drawn = []\<rparr>,
         Writer_release (Video ''security_recordings'' 100) :: image event] = 1
   \<and> (\<exists>w t0 md fr.
         detect_motion (\<lambda>x. x) keen_monitor
           \<lparr>gray_first_frame = dark, is_recording = True,
            video_writer = Some (Video ''security_recordings'' 100),
            record_start_time = Some 100,
            frame = Some \<lparr>pixels = spot, drawn = [Rectangle 0 0 5 5, PutText 100]\<rparr>\<rparr>
           spot = Some (md, fr)
       \<and> md \<and> t0 = 100 \<and> w = Video ''security_recordings'' 100
       \<and> [Writer_write (Video ''security_recordings'' 100)
             \<lparr>pixels = spot, drawn = [Rectangle 0 0 5 5]\<rparr>] = [Writer_write w fr])"
proof -
  have d: "detect_motion (\<lambda>x. x) keen_monitor
           \<lparr>gray_first_frame = dark, is_recording = True,
            video_writer = Some (Video ''security_recordings'' 100),
            record_start_time = Some 100,
            frame = Some \<lparr>pixels = spot, drawn = [Rectangle 0 0 5 5, PutText 100]\<rparr>\<rparr>
           spot = Some (True, \<lparr>pixels = spot, drawn = [Rectangle 0 0 5 5]\<rparr>)"
    by (rule detect_spot_keen) simp
  note inst = one_session_at_a_time [where smooth = "\<lambda>x. x" and m = keen_monitor and g = dark
      and inps = "[at_time 100 spot, at_time 105 spot, at_time 111 dark]"
      and inp = "at_time 105 spot" and raw = spot
      and ?st0.0 = "\<lparr>gray_first_frame = dark, is_recording = True,
            video_writer = Some (Video ''security_recordings'' 100),
            record_start_time = Some 100,
            frame = Some \<lparr>pixels = spot, drawn = [Rectangle 0 0 5 5, PutText 100]\<rparr>\<rparr>"]
  from inst keen_run keen_motion_again d show ?thesis
    by (simp add: count_def)
qed

subsection \<open>The start of a session\<close>

lemma session_start_cycle:
  assumes "\<not> is_recording st" and "detect_motion smooth m st raw = Some (True, fr)"
  shows "\<exists>st' evs.
          cycle smooth m st inp raw = Inr (st', evs)
        \<and> evs = [VideoWriter_open (Video (save_dir m) (stamp (now_stamp inp))),
                 Imwrite (Screenshot (save_dir m) (stamp (now_stamp inp))) fr,
                 Send_notification (Screenshot (save_dir m) (stamp (now_stamp inp))),
                 Writer_write (Video (save_dir m) (stamp (now_stamp inp))) fr]
                @ (if record_seconds m < time_check inp - time_start inp
                   then [Writer_release (Video (save_dir m) (stamp (now_stamp inp)))] else [])
        \<and> record_start_time st' = Some (time_start inp)
        \<and> is_recording st' = (\<not> record_seconds m < time_check inp - time_start inp)
        \<and> video_writer st'
            = (if record_seconds m < time_check inp - time_start inp then None
               else Some (Video (save_dir m) (stamp (now_stamp inp))))"
  by (simp add: cycle_idle_motion [OF assms])

lemma notification_only_at_start:
  assumes "cycle smooth m st2 inp2 raw2 = Inr (st3, evs3)" and "filter is_notification evs3 \<noteq> []"
  shows "\<not> is_recording st2 \<and> (\<exists>fr2. detect_motion smooth m st2 raw2 = Some (True, fr2))
        \<and> count is_open evs3 = 1 \<and> count is_notification evs3 = 1"
proof -
  note c = assms(1) and n = assms(2)
  from c obtain md fr2 where d: "detect_motion smooth m st2 raw2 = Some (md, fr2)"
    by (rule cycle_Inr_detect)
  have idle: "\<not> is_recording st2"
  proof
    assume rec: "is_recording st2"
    from c rec obtain w t0 where "video_writer st2 = Some w" "record_start_time st2 = Some t0"
      by (rule cycle_Inr_recording)
    from cycle_recording [OF rec this d, of inp2] c n show False by auto
  qed
  have md: md
  proof (rule ccontr)
    assume "\<not> md"
    with cycle_idle_quiet [OF idle, of smooth m raw2 fr2 inp2] d c n show False by auto
  qed
  from cycle_idle_motion [OF idle, of smooth m raw2 fr2 inp2] d md c
  have "count is_open evs3 = 1 \<and> count is_notification evs3 = 1"
    by (auto simp: count_def)
  with idle d md show ?thesis by auto
qed

text \<open>
  C2, as the code has it. In a cycle that begins idle and finds a contour of area at
  least \<^verbatim>\<open>min_area\<close>, one writer is opened, for the file stamped with the current time,
  and the session's start time is the clock reading of line 154; one screenshot of the
  current frame is stored; one notification is requested (the call of
  \<^verbatim>\<open>_send_notification\<close>), for that screenshot; and the frame is written to the new
  writer. At the end of the cycle the loop is recording, with that writer, unless the
  clock reading of line 170 is more than \<^verbatim>\<open>record_seconds\<close> after the start time: then
  the writer is released in this same cycle and the loop is idle again. A cycle
  requests a notification only if it begins idle and detects motion, and then it opens
  one writer and requests one notification: while a session is active none is
  requested.
\<close>

theorem motion_while_idle_starts_one_session:
  "(\<not> is_recording st \<and> detect_motion smooth m st raw = Some (True, fr) \<longrightarrow>
      (\<exists>st' evs.
          cycle smooth m st inp raw = Inr (st', evs)
        \<and> evs = [VideoWriter_open (Video (save_dir m) (stamp (now_stamp inp))),
                 Imwrite (Screenshot (save_dir m) (stamp (now_stamp inp))) fr,
                 Send_notification (Screenshot (save_dir m) (stamp (now_stamp inp))),
                 Writer_write (Video (save_dir m) (stamp (now_stamp inp))) fr]
                @ (if record_seconds m < time_check inp - time_start inp
                   then [Writer_release (Video (save_dir m) (stamp (now_stamp inp)))] else [])
        \<and> record_start_time st' = Some (time_start inp)
        \<and> is_recording st' = (\<not> record_seconds m < time_check inp - time_start inp)
        \<and> video_writer st'
            = (if record_seconds m < time_check inp - time_start inp then None
               else Some (Video (save_dir m) (stamp (now_stamp inp))))))
   \<and> (cycle smooth m st2 inp2 raw2 = Inr (st3, evs3) \<and> filter is_notification evs3 \<noteq> [] \<longrightarrow>
        \<not> is_recording st2 \<and> (\<exists>fr2. detect_motion smooth m st2 raw2 = Some (True, fr2))
        \<and> count is_open evs3 = 1 \<and> count is_notification evs3 = 1)"
proof (rule conjI)
  show "\<not> is_recording st \<and> detect_motion smooth m st raw = Some (True, fr) \<longrightarrow>
      (\<exists>st' evs.
          cycle smooth m st inp raw = Inr (st', evs)
        \<and> evs = [VideoWriter_open (Video (save_dir m) (stamp (now_stamp inp))),
                 Imwrite (Screenshot (save_dir m) (stamp (now_stamp inp))) fr,
                 Send_notification (Screenshot (save_dir m) (stamp (now_stamp inp))),
                 Writer_write (Video (save_dir m) (stamp (now_stamp inp))) fr]
                @ (if record_seconds m < time_check inp - time_start inp
                   then [Writer_release (Video (save_dir m) (stamp (now_stamp inp)))] else [])
        \<and> record_start_time st' = Some (time_start inp)
        \<and> is_recording st' = (\<not> record_seconds m < time_check inp - time_start inp)
        \<and> video_writer st'
            = (if record_seconds m < time_check inp - time_start inp then None
               else Some (Video (save_dir m) (stamp (now_stamp inp)))))"
    by (rule impI, elim conjE, rule session_start_cycle)
next
  show "cycle smooth m st2 inp2 raw2 = Inr (st3, evs3) \<and> filter is_notification evs3 \<noteq> [] \<longrightarrow>
        \<not> is_recording st2 \<and> (\<exists>fr2. detect_motion smooth m st2 raw2 = Some (True, fr2))
        \<and> count is_open evs3 = 1 \<and> count is_notification evs3 = 1"
    by (rule impI, elim conjE, rule notification_only_at_start)
qed

theorem motion_while_idle_starts_one_session_witness:
  "\<not> is_recording (initial_state dark :: image loop_state)
   \<and> detect_motion (\<lambda>x. x) keen_monitor (initial_state dark) spot
       = Some (True, \<lparr>pixels = spot, drawn = [Rectangle 0 0 5 5]\<rparr>)
   \<and> (\<exists>st' evs.
         cycle (\<lambda>x. x) keen_monitor (initial_state dark) (at_time 100 spot) spot = Inr (st', evs)
       \<and> evs = [VideoWriter_open (Video ''security_recordings'' 100),
                Imwrite (Screenshot ''security_recordings'' 100)
                  \<lparr>pixels = spot, drawn = [Rectangle 0 0 5 5]\<rparr>,
                Send_notification (Screenshot ''security_recordings'' 100),
                Writer_write (Video ''security_recordings'' 100)
                  \<lparr>pixels = spot, drawn = [Rectangle 0 0 5 5]\<rparr>]
       \<and> record_start_time st' = Some 100
       \<and> is_recording st'
       \<and> video_writer st' = Some (Video ''security_recordings'' 100))
   \<and> count is_notification
        [VideoWriter_open (Video ''security_recordings'' 100),
         Imwrite (Screenshot ''security_recordings'' 100)
           \<lparr>pixels = spot, drawn = [Rectangle 0 0 5 5]\<rparr>,
         Send_notification (Screenshot ''security_recordings'' 100),
         Writer_write (Video ''security_recordings'' 100)
           \<lparr>pixels = spot, drawn = [Rectangle 0 0 5 5]\<rparr> :: image event] = 1"
proof -
  have idle: "\<not> is_recording (initial_state dark :: image loop_state)"
    and ref: "gray_first_frame (initial_state dark :: image loop_state) = dark"
    by (simp_all add: initial_state_def)
  note d = detect_spot_keen [OF ref]
  note inst = motion_while_idle_starts_one_session [where smooth = "\<lambda>x. x" and m = keen_monitor
      and st = "initial_state dark" and raw = spot and inp = "at_time 100 spot"
      and fr = "\<lparr>pixels = spot, drawn = [Rectangle 0 0 5 5]\<rparr>"
      and ?st2.0 = "initial_state dark" and ?raw2.0 = spot and ?inp2.0 = "at_time 100 spot"]
  from inst idle d keen_start show ?thesis
    by (simp add: at_time_def monitor_fields stamp_def)
qed

text \<open>
  The claim as stated has the state transition to Recording in every such cycle. With
  \<^verbatim>\<open>record_seconds = 10\<close>, let the cycle that detects motion read the clock as 100 at
  line 154 and as 111 at line 170 (the notification of line 161 is sent in between):
  the session is opened, written one frame and released, and the cycle ends idle.
\<close>

theorem session_start_can_end_idle_counterexample:
  "\<not> is_recording (initial_state dark :: image loop_state)
   \<and> detect_motion (\<lambda>x. x) keen_monitor (initial_state dark) spot
       = Some (True, \<lparr>pixels = spot, drawn = [Rectangle 0 0 5 5]\<rparr>)
   \<and> cycle (\<lambda>x. x) keen_monitor (initial_state dark)
        ((at_time 100 spot)\<lparr>time_check := 111\<rparr>) spot
     = Inr (\<lparr>gray_first_frame = dark, is_recording = False, video_writer = None,
             record_start_time = Some 100,
             frame = Some \<lparr>pixels = spot, drawn = [Rectangle 0 0 5 5, PutText 100]\<rparr>\<rparr>,
            [VideoWriter_open (Video ''security_recordings'' 100),
             Imwrite (Screenshot ''security_recordings'' 100)
               \<lparr>pixels = spot, drawn = [Rectangle 0 0 5 5]\<rparr>,
             Send_notification (Screenshot ''security_recordings'' 100),
             Writer_write (Video ''security_recordings'' 100)
               \<lparr>pixels = spot, drawn = [Rectangle 0 0 5 5]\<rparr>,
             Writer_release (Video ''security_recordings'' 100)])"
proof -
  have idle: "\<not> is_recording (initial_state dark :: image loop_state)"
    and ref: "gray_first_frame (initial_state dark :: image loop_state) = dark"
    by (simp_all add: initial_state_def)
  note d = detect_spot_keen [OF ref]
  from cycle_idle_motion [OF idle d, of "(at_time 100 spot)\<lparr>time_check := 111\<rparr>"] idle d
  show ?thesis
    by (simp add: at_time_def monitor_fields mod30_100 putText_def initial_state_def stamp_def)
qed

subsection \<open>The timestamp overlay\<close>

lemma has_overlay_rectangle: "has_overlay (rectangle fr r) = has_overlay fr"
  by (cases r) (simp add: has_overlay_def rectangle_def)

lemma scan_contours_no_text:
  assumes "scan_contours area cs (md, fr) = (md', fr')" and "\<not> has_overlay fr"
  shows "\<not> has_overlay fr'"
  using assms
  by (induction cs arbitrary: md fr) (auto simp: has_overlay_rectangle split: if_splits)

lemma detect_motion_no_text:
  assumes "detect_motion smooth m st raw = Some (md, fr)"
  shows "\<not> has_overlay fr"
proof -
  from assms obtain cs where
    "scan_contours (min_area m) cs (False, \<lparr>pixels = raw, drawn = []\<rparr>) = (md, fr)"
    by (auto simp: detect_motion_def detect_def split: option.splits)
  then show ?thesis
    by (rule scan_contours_no_text) (simp add: has_overlay_def)
qed

text \<open>
  C7, as the code has it. In every cycle that runs to its end, the timestamp is drawn
  on the frame at line 181, after the writes of lines 158 and 167: every frame that
  the cycle stores, as the screenshot or in the recording, is the frame with the motion
  rectangles and without the overlay, and the overlay is on the loop's variable
  \<^verbatim>\<open>frame\<close> only, which the next \<^verbatim>\<open>camera.read()\<close> replaces.
\<close>

theorem overlay_is_drawn_after_the_writes:
  assumes "cycle smooth m st inp raw = Inr (st', evs)"
  shows "\<exists>fr. \<not> has_overlay fr
            \<and> frame st' = Some (putText fr (now_overlay inp))
            \<and> has_overlay (putText fr (now_overlay inp))
            \<and> (\<forall>e fr'. e \<in> set evs \<and> written e = Some fr' \<longrightarrow> fr' = fr)"
proof -
  from assms obtain md fr where d: "detect_motion smooth m st raw = Some (md, fr)"
    by (rule cycle_Inr_detect)
  have nt: "\<not> has_overlay fr" using d by (rule detect_motion_no_text)
  have ov: "has_overlay (putText fr (now_overlay inp))"
    by (simp add: has_overlay_def putText_def)
  show ?thesis
  proof (cases "is_recording st")
    case True
    from assms True obtain w t0 where w: "video_writer st = Some w"
      and t: "record_start_time st = Some t0"
      by (rule cycle_Inr_recording)
    from cycle_recording [OF True w t d, of inp] assms nt ov show ?thesis
      by (intro exI [of _ fr]) auto
  next
    case idle: False
    show ?thesis
    proof (cases md)
      case True
      with cycle_idle_motion [OF idle, of smooth m raw fr inp] d assms nt ov show ?thesis
        by (intro exI [of _ fr]) (auto split: if_splits)
    next
      case False
      with cycle_idle_quiet [OF idle, of smooth m raw fr inp] d assms nt ov show ?thesis
        by (intro exI [of _ fr]) auto
    qed
  qed
qed

theorem overlay_is_drawn_after_the_writes_witness:
  "cycle (\<lambda>x. x) keen_monitor (initial_state dark) (at_time 100 spot) spot
     = Inr (\<lparr>gray_first_frame = dark, is_recording = True,
             video_writer = Some (Video ''security_recordings'' 100),
             record_start_time = Some 100,
             frame = Some \<lparr>pixels = spot, drawn = [Rectangle 0 0 5 5, PutText 100]\<rparr>\<rparr>,
            [VideoWriter_open (Video ''security_recordings'' 100),
             Imwrite (Screenshot ''security_recordings'' 100)
               \<lparr>pixels = spot, drawn = [Rectangle 0 0 5 5]\<rparr>,
             Send_notification (Screenshot ''security_recordings'' 100),
             Writer_write (Video ''security_recordings'' 100)
               \<lparr>pixels = spot, drawn = [Rectangle 0 0 5 5]\<rparr>])
   \<and> \<not> has_overlay \<lparr>pixels = spot, drawn = [Rectangle 0 0 5 5]\<rparr>
   \<and> has_overlay (putText \<lparr>pixels = spot, drawn = [Rectangle 0 0 5 5]\<rparr>
                     (now_overlay (at_time 100 spot :: image cycle_in)))"
proof -
  from overlay_is_drawn_after_the_writes [OF keen_start] obtain fr where
    a: "\<not> has_overlay fr"
    and b: "has_overlay (putText fr (now_overlay (at_time 100 spot :: image cycle_in)))"
    and c: "\<forall>e fr'. e \<in> set [VideoWriter_open (Video ''security_recordings'' 100),
             Imwrite (Screenshot ''security_recordings'' 100)
               \<lparr>pixels = spot, drawn = [Rectangle 0 0 5 5]\<rparr>,
             Send_notification (Screenshot ''security_recordings'' 100),
             Writer_write (Video ''security_recordings'' 100)
               \<lparr>pixels = spot, drawn = [Rectangle 0 0 5 5]\<rparr>] \<and> written e = Some fr'
           \<longrightarrow> fr' = fr"
    by blast
  from c [rule_format, of "Imwrite (Screenshot ''security_recordings'' 100)
               \<lparr>pixels = spot, drawn = [Rectangle 0 0 5 5]\<rparr>"
      "\<lparr>pixels = spot, drawn = [Rectangle 0 0 5 5]\<rparr>"]
  have "\<lparr>pixels = spot, drawn = [Rectangle 0 0 5 5]\<rparr> = fr" by simp
  with a b keen_start show ?thesis by simp
qed

text \<open>
  The claim as stated has every stored screenshot and every recorded frame carry the
  overlay. In the cycle that starts a session on the frame \<open>spot\<close>, the screenshot and
  the recorded frame carry the rectangle only.
\<close>

theorem written_frames_lack_overlay_counterexample:
  "cycle (\<lambda>x. x) keen_monitor (initial_state dark) (at_time 100 spot) spot
     = Inr (\<lparr>gray_first_frame = dark, is_recording = True,
             video_writer = Some (Video ''security_recordings'' 100),
             record_start_time = Some 100,
             frame = Some \<lparr>pixels = spot, drawn = [Rectangle 0 0 5 5, PutText 100]\<rparr>\<rparr>,
            [VideoWriter_open (Video ''security_recordings'' 100),
             Imwrite (Screenshot ''security_recordings'' 100)
               \<lparr>pixels = spot, drawn = [Rectangle 0 0 5 5]\<rparr>,
             Send_notification (Screenshot ''security_recordings'' 100),
             Writer_write (Video ''security_recordings'' 100)
               \<lparr>pixels = spot, drawn = [Rectangle 0 0 5 5]\<rparr>])
   \<and> \<not> has_overlay \<lparr>pixels = spot, drawn = [Rectangle 0 0 5 5]\<rparr>"
  by (simp add: keen_start has_overlay_def)

subsection \<open>A camera that does not open\<close>

text \<open>
  C6, as the code has it. When \<^verbatim>\<open>start\<close> is called on a monitor that is not running
  and the camera does not open, the caller gets the message of a successful start; the
  thread ends without an event, with \<^verbatim>\<open>is_running\<close> false and the capture released. The
  failure is logged and does not reach the caller of \<^verbatim>\<open>start\<close>.
\<close>

theorem unopened_camera_is_not_reported:
  assumes "\<not> is_running m" and "\<not> opened env"
  shows "start_and_run smooth m env
           = (Msg_started,
              m\<lparr>is_running := False, camera := Some Cap_released, monitor_thread := True\<rparr>,
              [], Some Not_opened)"
  using assms by (simp add: start_and_run_def start_def monitor_loop_def)

theorem unopened_camera_is_not_reported_witness:
  "\<not> is_running default_monitor
   \<and> \<not> opened \<lparr>opened = False, first_read = None :: image option, cycles = []\<rparr>
   \<and> start_and_run (\<lambda>x. x) default_monitor
        \<lparr>opened = False, first_read = None :: image option, cycles = []\<rparr>
       = (Msg_started,
          default_monitor\<lparr>is_running := False, camera := Some Cap_released,
                          monitor_thread := True\<rparr>,
          [], Some Not_opened)"
proof -
  have a: "\<not> is_running default_monitor"
    by (simp add: default_monitor_def new_monitor_def)
  have b: "\<not> opened \<lparr>opened = False, first_read = None :: image option, cycles = []\<rparr>"
    by simp
  from unopened_camera_is_not_reported [OF a b, of "\<lambda>x. x"] a show ?thesis by simp
qed

text \<open>
  The claim as stated has \<^verbatim>\<open>start\<close> report the failure instead of success. With the
  default monitor and a camera that does not open, \<^verbatim>\<open>start\<close> returns the message of a
  successful start.
\<close>

theorem start_reports_success_counterexample:
  "\<not> opened \<lparr>opened = False, first_read = None :: image option, cycles = []\<rparr>
   \<and> fst (start default_monitor) = Msg_started
   \<and> fst (start_and_run (\<lambda>x. x) default_monitor
            \<lparr>opened = False, first_read = None :: image option, cycles = []\<rparr>) = Msg_started"
  by (simp add: start_and_run_def start_def monitor_loop_def default_monitor_def new_monitor_def)

subsection \<open>The module-level start and stop\<close>

text \<open>
  C10. In a state of the module in which \<^verbatim>\<open>security_monitor_instance\<close> is \<^verbatim>\<open>None\<close> (as
  it is when the module is loaded), \<^verbatim>\<open>start_security_monitoring\<close> starts a new monitor
  and leaves the global \<^verbatim>\<open>None\<close>; \<^verbatim>\<open>stop_security_monitoring\<close> called next returns
  "was not started" and changes nothing: the monitor just started is still running.
\<close>

theorem module_stop_misses_module_start:
  assumes "security_monitor_instance g = None"
    and "start_security_monitoring cid sens secs method g = (msg, g')"
  shows "msg = Msg_started
       \<and> objects g' = objects g @ [(new_monitor cid sens 500 secs method ''security_recordings'')
                                    \<lparr>is_running := True, monitor_thread := True\<rparr>]
       \<and> is_running (last (objects g'))
       \<and> security_monitor_instance g' = None
       \<and> stop_security_monitoring g' = Some (Msg_was_not_started, g')"
  using assms
  by (auto simp: start_security_monitoring_def start_def new_monitor_def
      stop_security_monitoring_def)

theorem module_stop_misses_module_start_witness:
  "security_monitor_instance module_init = None
   \<and> start_security_monitoring 0 30 10 ''email'' module_init
       = (Msg_started,
          \<lparr>objects = [(new_monitor 0 30 500 10 ''email'' ''security_recordings'')
                        \<lparr>is_running := True, monitor_thread := True\<rparr>],
           security_monitor_instance = None\<rparr>)
   \<and> stop_security_monitoring
        \<lparr>objects = [(new_monitor 0 30 500 10 ''email'' ''security_recordings'')
                      \<lparr>is_running := True, monitor_thread := True\<rparr>],
         security_monitor_instance = None\<rparr>
       = Some (Msg_was_not_started,
          \<lparr>objects = [(new_monitor 0 30 500 10 ''email'' ''security_recordings'')
                        \<lparr>is_running := True, monitor_thread := True\<rparr>],
           security_monitor_instance = None\<rparr>)"
proof -
  have a: "security_monitor_instance module_init = None"
    by (simp add: module_init_def)
  have b: "start_security_monitoring 0 30 10 ''email'' module_init
       = (Msg_started,
          \<lparr>objects = [(new_monitor 0 30 500 10 ''email'' ''security_recordings'')
                        \<lparr>is_running := True, monitor_thread := True\<rparr>],
           security_monitor_instance = None\<rparr>)"
    by (simp add: start_security_monitoring_def start_def new_monitor_def module_init_def)
  from module_stop_misses_module_start [OF a b] a b show ?thesis by simp
qed

subsection \<open>The filter on the contours\<close>

lemma scan_contours_eq:
  "scan_contours area cs (md, fr)
     = (md \<or> filter (\<lambda>c. \<not> contourArea c < area) cs \<noteq> [],
        foldl rectangle fr (map boundingRect (filter (\<lambda>c. \<not> contourArea c < area) cs)))"
  by (induction cs arbitrary: md fr) simp_all

text \<open>
  C9, as the code has it. The loop over the contours discards a contour exactly when
  its contour area (\<^verbatim>\<open>cv2.contourArea\<close>, the area enclosed by the contour) is less than
  \<^verbatim>\<open>min_area\<close>; \<^verbatim>\<open>motion_detected\<close> is true exactly when a contour survives, and each
  surviving contour has its bounding rectangle drawn on the frame, in order.
\<close>

theorem contours_are_filtered_by_contour_area:
  "scan_contours area cs (False, fr)
     = (filter (\<lambda>c. \<not> contourArea c < area) cs \<noteq> [],
        foldl rectangle fr (map boundingRect (filter (\<lambda>c. \<not> contourArea c < area) cs)))"
  by (simp add: scan_contours_eq)

theorem contours_are_filtered_by_contour_area_witness:
  "scan_contours 10 [[(0, 0), (0, 4), (4, 4), (4, 0)], [(7, 7)]]
       (False, \<lparr>pixels = spot, drawn = []\<rparr>)
     = (True, \<lparr>pixels = spot, drawn = [Rectangle 0 0 5 5]\<rparr>)
   \<and> contourArea [(0, 0), (0, 4), (4, 4), (4, 0)] = 16
   \<and> contourArea [(7, 7)] = 0"
  using contours_are_filtered_by_contour_area
    [of 10 "[[(0, 0), (0, 4), (4, 4), (4, 0)], [(7, 7)]]" "\<lparr>pixels = spot, drawn = []\<rparr>"]
  by (simp add: area_spot rect_spot rectangle_def contourArea_def)

text \<open>
  The claim as stated discards a contour exactly when the area of its bounding
  rectangle is less than \<^verbatim>\<open>min_area\<close>. The one contour of the frame \<open>spot\<close> has a
  bounding rectangle of 5 by 5 pixels, area 25, and contour area 16: with \<^verbatim>\<open>min_area\<close>
  20 it is discarded, and no motion is detected.
\<close>

theorem bounding_area_does_not_decide_counterexample:
  "detect_contours 20 dark spot = Some [[(0, 0), (0, 4), (4, 4), (4, 0)]]
   \<and> bounding_area [(0, 0), (0, 4), (4, 4), (4, 0)] = 25
   \<and> \<not> real_of_int (bounding_area [(0, 0), (0, 4), (4, 4), (4, 0)]) < 20
   \<and> scan_contours 20 [[(0, 0), (0, 4), (4, 4), (4, 0)]] (False, \<lparr>pixels = spot, drawn = []\<rparr>)
       = (False, \<lparr>pixels = spot, drawn = []\<rparr>)"
  by (simp add: contours_spot bounding_area_def rect_spot area_spot)

subsection \<open>The threshold and the number of regions\<close>

lemma covers_dilate: "covers a b \<Longrightarrow> covers (dilate a) (dilate b)"
  by (simp add: dilate_def covers_dilate1)

lemma mask_bridge_20:
  "motion_mask 20 dark3 bridge
     = Some [[255, 255, 255, 255, 255, 255, 255, 255, 255],
             [255, 255, 255, 255, 255, 255, 255, 255, 255],
             [255, 255, 255, 255, 255, 255, 255, 255, 255]]"
  by code_simp
lemma mask_bridge_100:
  "motion_mask 100 dark3 bridge
     = Some [[255, 255, 255, 255, 0, 255, 255, 255, 255],
             [255, 255, 255, 255, 0, 255, 255, 255, 255],
             [255, 255, 255, 255, 0, 255, 255, 255, 255]]"
  by code_simp

lemma contours_whole:
  "findContours [[255, 255, 255, 255, 255, 255, 255, 255, 255],
             [255, 255, 255, 255, 255, 255, 255, 255, 255],
             [255, 255, 255, 255, 255, 255, 255, 255, 255]]
     = [[(0, 0), (0, 2), (8, 2), (8, 0)]]"
  by code_simp
lemma contours_split:
  "findContours [[255, 255, 255, 255, 0, 255, 255, 255, 255],
             [255, 255, 255, 255, 0, 255, 255, 255, 255],
             [255, 255, 255, 255, 0, 255, 255, 255, 255]]
     = [[(5, 0), (5, 2), (8, 2), (8, 0)], [(0, 0), (0, 2), (3, 2), (3, 0)]]"
  by code_simp

lemma detect_bridge_20:
  "detect 20 5 dark3 bridge \<lparr>pixels = bridge, drawn = []\<rparr>
     = Some (True, \<lparr>pixels = bridge, drawn = [Rectangle 0 0 9 3]\<rparr>)"
  by (simp add: detect_def detect_contours_def mask_bridge_20 contours_whole contourArea_def
      boundingRect_def rectangle_def)

lemma detect_bridge_100:
  "detect 100 5 dark3 bridge \<lparr>pixels = bridge, drawn = []\<rparr>
     = Some (True, \<lparr>pixels = bridge, drawn = [Rectangle 5 0 9 3, Rectangle 0 0 4 3]\<rparr>)"
  by (simp add: detect_def detect_contours_def mask_bridge_100 contours_split contourArea_def
      boundingRect_def rectangle_def)

text \<open>
  C5, as the code has it. For a fixed reference and frame and sensitivity values
  \<open>s1 \<le> s2\<close> in the range of a C \<^verbatim>\<open>int\<close>, the mask (thresholded at the sensitivity and
  dilated twice) for \<open>s2\<close> is covered by the mask for \<open>s1\<close>, pixel by pixel, so that it
  has no more set pixels. (The number of regions found in it is another matter.)
\<close>

theorem higher_sensitivity_shrinks_the_mask:
  assumes "s1 \<le> s2" and "- 2147483648 \<le> s1" and "s2 < 2147483648"
    and "motion_mask s1 gray_first gray = Some m1"
    and "motion_mask s2 gray_first gray = Some m2"
  shows "covers m1 m2 \<and> length (foreground m2) \<le> length (foreground m1)"
proof -
  from assms(4,5) obtain d where "m1 = dilate (threshold d s1)" and "m2 = dilate (threshold d s2)"
    by (auto simp: motion_mask_def split: option.splits)
  with covers_dilate [OF covers_threshold [OF assms(1,2,3), of d]] have "covers m1 m2" by simp
  then show ?thesis by (simp add: covers_foreground)
qed

theorem higher_sensitivity_shrinks_the_mask_witness:
  "(20 :: real) \<le> 100 \<and> - 2147483648 \<le> (20 :: real) \<and> (100 :: real) < 2147483648
   \<and> motion_mask 20 dark3 bridge
       = Some [[255, 255, 255, 255, 255, 255, 255, 255, 255],
               [255, 255, 255, 255, 255, 255, 255, 255, 255],
               [255, 255, 255, 255, 255, 255, 255, 255, 255]]
   \<and> motion_mask 100 dark3 bridge
       = Some [[255, 255, 255, 255, 0, 255, 255, 255, 255],
               [255, 255, 255, 255, 0, 255, 255, 255, 255],
               [255, 255, 255, 255, 0, 255, 255, 255, 255]]
   \<and> covers [[255, 255, 255, 255, 255, 255, 255, 255, 255],
             [255, 255, 255, 255, 255, 255, 255, 255, 255],
             [255, 255, 255, 255, 255, 255, 255, 255, 255]]
            [[255, 255, 255, 255, 0, 255, 255, 255, 255],
             [255, 255, 255, 255, 0, 255, 255, 255, 255],
             [255, 255, 255, 255, 0, 255, 255, 255, 255]]"
proof -
  have le: "(20 :: real) \<le> 100" and lo: "- 2147483648 \<le> (20 :: real)"
    and hi: "(100 :: real) < 2147483648"
    by simp_all
  from higher_sensitivity_shrinks_the_mask [OF le lo hi mask_bridge_20 mask_bridge_100]
    mask_bridge_20 mask_bridge_100
  show ?thesis by simp
qed

text \<open>
  The claim as stated has no more regions with the higher sensitivity value. In the
  difference image \<open>bridge\<close> two bright pixels are joined by a dim line: at sensitivity
  20 the mask is one region, at sensitivity 100 the line is gone and the two pixels
  grow to two regions, each of contour area 6, above a \<^verbatim>\<open>min_area\<close> of 5.
\<close>

theorem more_regions_at_higher_sensitivity_counterexample:
  "(20 :: real) < 100
   \<and> detect 20 5 dark3 bridge \<lparr>pixels = bridge, drawn = []\<rparr>
       = Some (True, \<lparr>pixels = bridge, drawn = [Rectangle 0 0 9 3]\<rparr>)
   \<and> detect 100 5 dark3 bridge \<lparr>pixels = bridge, drawn = []\<rparr>
       = Some (True, \<lparr>pixels = bridge, drawn = [Rectangle 5 0 9 3, Rectangle 0 0 4 3]\<rparr>)"
  by (simp add: detect_bridge_20 detect_bridge_100)

end
